theory Spec2Isabelle
  imports
    Main
    "HOL-Library.Multiset"
    "HOL-Library.Char_ord"
    "HOL-Library.List_Lexorder"
    "HOL-Library.Product_Lexorder"
begin

section \<open>TalkIntel audio transcription utility (transcribe_audio_sippulse.py)\<close>

text \<open>
  A shallow embedding of \<^verbatim>\<open>TalkIntelTranscriber\<close> and \<^verbatim>\<open>main\<close>. Strings are byte
  lists (the UTF-8 encoding of Python's \<^verbatim>\<open>str\<close>); comparing them byte by byte is Python's
  code point order. Everything the program asks of its environment (the directory walk,
  the transcoder, the HTTP calls, \<^verbatim>\<open>json.dumps\<close>) is a field of the record \<open>world\<close>;
  everything it does to the environment is an event appended to a trace, next to the set
  of files that exist.
\<close>

subsection \<open>Paths (pathlib, os.path)\<close>

datatype exn = IndexError | OSError

text \<open>\<^verbatim>\<open>os.path.basename(p)\<close> and \<^verbatim>\<open>Path(p).name\<close> on a POSIX path without a trailing slash.\<close>

definition basename :: "string \<Rightarrow> string" where
  "basename p = rev (takeWhile (\<lambda>c. c \<noteq> CHR ''/'') (rev p))"

text \<open>\<^verbatim>\<open>s.rfind(c)\<close>: the last index of \<open>c\<close>, \<open>None\<close> for Python's -1.\<close>

definition rfind :: "char \<Rightarrow> string \<Rightarrow> nat option" where
  "rfind c s =
     (if c \<in> set s then Some (length s - 1 - length (takeWhile (\<lambda>x. x \<noteq> c) (rev s)))
      else None)"

text \<open>
  \<^verbatim>\<open>Path.suffix\<close> and \<^verbatim>\<open>Path.stem\<close> as pathlib defines them up to Python 3.13:
  with \<^verbatim>\<open>i = name.rfind('.')\<close>, the suffix is \<^verbatim>\<open>name[i:]\<close> and the stem \<^verbatim>\<open>name[:i]\<close>
  when \<^verbatim>\<open>0 < i < len(name) - 1\<close>; otherwise the suffix is empty and the stem is the name.
\<close>

definition path_suffix :: "string \<Rightarrow> string" where
  "path_suffix p =
     (let name = basename p in
      case rfind (CHR ''.'') name of
        None \<Rightarrow> []
      | Some i \<Rightarrow> if 0 < i \<and> i + 1 < length name then drop i name else [])"

definition path_stem :: "string \<Rightarrow> string" where
  "path_stem p =
     (let name = basename p in
      case rfind (CHR ''.'') name of
        None \<Rightarrow> name
      | Some i \<Rightarrow> if 0 < i \<and> i + 1 < length name then take i name else name)"

text \<open>
  \<^verbatim>\<open>str.lower()\<close> on the bytes of a string: the ASCII capitals move to lower case. No
  other character lowers to a letter of a supported extension.
\<close>

definition lower_char :: "char \<Rightarrow> char" where
  "lower_char c =
     (let n = (of_char c :: nat) in if 65 \<le> n \<and> n \<le> 90 then char_of (n + 32) else c)"

definition lower :: "string \<Rightarrow> string" where
  "lower s = map lower_char s"

text \<open>\<^verbatim>\<open>s.endswith(t)\<close>.\<close>

definition endswith :: "string \<Rightarrow> string \<Rightarrow> bool" where
  "endswith s t = (length t \<le> length s \<and> drop (length s - length t) s = t)"

subsection \<open>File discovery: get_unique_files\<close>

text \<open>One item of \<^verbatim>\<open>Path(directory_path).rglob('*')\<close>: its path and what \<^verbatim>\<open>is_file()\<close> says.\<close>

record dirent =
  d_path :: string
  d_is_file :: bool

text \<open>The dictionaries appended to \<^verbatim>\<open>file_groups[base_name]\<close>.\<close>

record candidate =
  c_path :: string
  c_extension :: string
  c_priority :: nat

text \<open>The line printed for a group with more than one file.\<close>

record dup_report =
  r_base_name :: string
  r_duplicate_extensions :: "string list"
  r_using :: string

definition audio_extensions :: "string list" where
  "audio_extensions = [''.mp3'', ''.wav'', ''.flac'', ''.m4a'', ''.ogg'', ''.wma'']"

text \<open>\<^verbatim>\<open>{ext: i for i, ext in enumerate(audio_extensions)}\<close>\<close>

definition extension_priority :: "string \<rightharpoonup> nat" where
  "extension_priority = map_of (zip audio_extensions [0..<length audio_extensions])"

text \<open>\<^verbatim>\<open>extension_priority.get(extension, 999)\<close>\<close>

definition priority_of :: "string \<Rightarrow> nat" where
  "priority_of extension = (case extension_priority extension of Some i \<Rightarrow> i | None \<Rightarrow> 999)"

text \<open>
  \<^verbatim>\<open>file_groups\<close> is a dictionary, which keeps its keys in insertion order: an association
  list with one pair per key, a new key at the end.
\<close>

type_synonym file_groups = "(string \<times> candidate list) list"

fun group_append :: "string \<Rightarrow> candidate \<Rightarrow> file_groups \<Rightarrow> file_groups" where
  "group_append base_name c [] = [(base_name, [c])]"
| "group_append base_name c ((k, files) # g) =
     (if k = base_name then (k, files @ [c]) # g
      else (k, files) # group_append base_name c g)"

definition is_audio :: "dirent \<Rightarrow> bool" where
  "is_audio e = (d_is_file e \<and> lower (path_suffix (d_path e)) \<in> set audio_extensions)"

definition mk_candidate :: "dirent \<Rightarrow> candidate" where
  "mk_candidate e =
     (let extension = lower (path_suffix (d_path e)) in
      \<lparr>c_path = d_path e, c_extension = extension, c_priority = priority_of extension\<rparr>)"

text \<open>The body of the first loop, for one item of the walk.\<close>

definition group_step :: "file_groups \<Rightarrow> dirent \<Rightarrow> file_groups" where
  "group_step g e =
     (if is_audio e then group_append (path_stem (d_path e)) (mk_candidate e) g else g)"

definition build_groups :: "dirent list \<Rightarrow> file_groups" where
  "build_groups entries = foldl group_step [] entries"

text \<open>
  The second loop: every group is sorted by priority (\<^verbatim>\<open>list.sort\<close> is stable, as
  \<open>sort_key\<close> is), \<^verbatim>\<open>files[0]\<close> is selected, which raises \<^verbatim>\<open>IndexError\<close> on an empty
  group, and the other extensions are reported when there are any.
\<close>

fun select_best ::
  "file_groups \<Rightarrow> exn + (string list \<times> dup_report list)" where
  "select_best [] = Inr ([], [])"
| "select_best ((base_name, files) # g) =
     (case sort_key c_priority files of
        [] \<Rightarrow> Inl IndexError
      | best_file # others \<Rightarrow>
          (case select_best g of
             Inl e \<Rightarrow> Inl e
           | Inr (unique_files, reports) \<Rightarrow>
               Inr (c_path best_file # unique_files,
                    (if 1 < length (best_file # others)
                     then [\<lparr>r_base_name = base_name,
                             r_duplicate_extensions = map c_extension others,
                             r_using = c_extension best_file\<rparr>]
                     else []) @ reports)))"

text \<open>
  \<open>get_unique_files\<close> on the result of the walk: \<open>None\<close> when
  \<^verbatim>\<open>os.path.exists(directory_path)\<close> is false. It returns the sorted list and what it
  printed about duplicates.
\<close>

definition get_unique_files ::
  "dirent list option \<Rightarrow> exn + (string list \<times> dup_report list)" where
  "get_unique_files walk =
     (case walk of
        None \<Rightarrow> Inr ([], [])
      | Some entries \<Rightarrow>
          (case select_best (build_groups entries) of
             Inl e \<Rightarrow> Inl e
           | Inr (unique_files, reports) \<Rightarrow> Inr (sort unique_files, reports)))"

subsection \<open>JSON values\<close>

text \<open>
  What \<^verbatim>\<open>response.json()\<close> returns and what the request's configuration is built from.
  Numbers are integers here; no claim reads a number.
\<close>

datatype json =
    JNull
  | JBool bool
  | JNum int
  | JStr string
  | JArr "json list"
  | JObj "(string \<times> json) list"

text \<open>Python's truth value of a decoded JSON value, as \<^verbatim>\<open>if result:\<close> tests it.\<close>

fun truthy :: "json \<Rightarrow> bool" where
  "truthy JNull = False"
| "truthy (JBool b) = b"
| "truthy (JNum n) = (n \<noteq> 0)"
| "truthy (JStr s) = (s \<noteq> [])"
| "truthy (JArr xs) = (xs \<noteq> [])"
| "truthy (JObj kvs) = (kvs \<noteq> [])"

text \<open>\<^verbatim>\<open>d.get(key, default)\<close> on the pairs of a JSON object.\<close>

definition dict_get :: "(string \<times> json) list \<Rightarrow> string \<Rightarrow> json \<Rightarrow> json" where
  "dict_get kvs key dflt = (case map_of kvs key of Some v \<Rightarrow> v | None \<Rightarrow> dflt)"

subsection \<open>The environment\<close>

text \<open>How \<^verbatim>\<open>subprocess.run\<close> ends: with an exit status, or by raising.\<close>

datatype run_outcome =
    Exited int
  | TimeoutExpired
  | FileNotFoundError
  | OtherError

text \<open>
  How \<^verbatim>\<open>session.post\<close> ends: with a response, of which the status code and the
  decoded body matter (\<open>None\<close> when \<^verbatim>\<open>response.json()\<close> raises), with a
  \<^verbatim>\<open>RequestException\<close>, or with another exception.
\<close>

datatype http_outcome =
    Response nat "json option"
  | RequestException
  | OtherException

datatype webhook_outcome =
    WStatus nat
  | WException

text \<open>The arguments of \<^verbatim>\<open>session.post\<close> in \<open>transcribe_file\<close>.\<close>

record request =
  rq_url :: string
  rq_params :: "(string \<times> string) list option"
  rq_file_name :: string
  rq_file_path :: string
  rq_content_type :: string
  rq_timeout :: nat

record world =
  w_walk :: "string \<Rightarrow> dirent list option"
  w_tempfile :: "string \<Rightarrow> string option"
  w_ffmpeg :: "string \<Rightarrow> string \<Rightarrow> run_outcome"
  w_post :: "request \<Rightarrow> http_outcome"
  w_webhook :: "string \<Rightarrow> json \<Rightarrow> webhook_outcome"
  w_dumps :: "json \<Rightarrow> string"
  w_time :: int
  w_writable :: "int \<Rightarrow> bool"

text \<open>
  \<^item> \<open>w_walk d\<close>: \<open>None\<close> when \<^verbatim>\<open>os.path.exists(d)\<close> is false, else the items of
    \<^verbatim>\<open>Path(d).rglob('*')\<close> in the order the walk yields them;
  \<^item> \<open>w_tempfile input\<close>: the name \<^verbatim>\<open>NamedTemporaryFile(suffix='.mp3', delete=False)\<close>
    gives during the conversion of \<open>input\<close>, \<open>None\<close> when it raises;
  \<^item> \<open>w_ffmpeg input output\<close>: how the transcoder run ends;
  \<^item> \<open>w_post\<close>, \<open>w_webhook\<close>: how the two HTTP calls end;
  \<^item> \<open>w_dumps\<close>: \<^verbatim>\<open>json.dumps\<close>;
  \<^item> \<open>w_time\<close>: \<^verbatim>\<open>time.time()\<close> in whole seconds;
  \<^item> \<open>w_writable t\<close>: whether the results file of timestamp \<open>t\<close> can be opened for
    writing.
\<close>

text \<open>
  The effects. \<open>Transcribe p\<close> marks the entry of \<open>transcribe_file\<close> for \<open>p\<close>;
  \<open>WriteFile t results\<close> is the dump of \<open>results\<close> into
  \<^verbatim>\<open>transcription_results_<t>.json\<close>.
\<close>

datatype event =
    Transcribe string
  | CreateTemp string
  | Unlink string
  | Post request
  | WebhookPost string json
  | Sleep nat
  | WriteFile int "(string \<times> json) list"

record state =
  st_files :: "string set"
  st_trace :: "event list"

definition emit :: "event \<Rightarrow> state \<Rightarrow> state" where
  "emit e s = s\<lparr>st_trace := st_trace s @ [e]\<rparr>"

text \<open>\<^verbatim>\<open>if os.path.exists(p): os.unlink(p)\<close>\<close>

definition unlink_if_exists :: "string \<Rightarrow> state \<Rightarrow> state" where
  "unlink_if_exists p s =
     (if p \<in> st_files s then emit (Unlink p) (s\<lparr>st_files := st_files s - {p}\<rparr>) else s)"

subsection \<open>Audio normalisation: convert_audio_with_ffmpeg\<close>

text \<open>
  The temporary file exists from the moment it is named. The transcoder run leaves it in
  place however it ends; each handler decides what is removed. When naming the file
  raises, the last handler runs with \<^verbatim>\<open>output_file\<close> not among the locals.
\<close>

definition convert_audio_with_ffmpeg ::
  "world \<Rightarrow> string \<Rightarrow> state \<Rightarrow> string option \<times> state" where
  "convert_audio_with_ffmpeg w input_file s =
     (case w_tempfile w input_file of
        None \<Rightarrow> (None, s)
      | Some output_file \<Rightarrow>
          (let s1 = emit (CreateTemp output_file)
                      (s\<lparr>st_files := insert output_file (st_files s)\<rparr>)
           in case w_ffmpeg w input_file output_file of
                Exited returncode \<Rightarrow>
                  if returncode = 0 then (Some output_file, s1)
                  else (None, unlink_if_exists output_file s1)
              | TimeoutExpired \<Rightarrow> (None, unlink_if_exists output_file s1)
              | FileNotFoundError \<Rightarrow> (None, s1)
              | OtherError \<Rightarrow> (None, unlink_if_exists output_file s1)))"

subsection \<open>URL encoding (urllib.parse, requests)\<close>

text \<open>The characters \<^verbatim>\<open>quote\<close> never encodes: letters, digits and \<^verbatim>\<open>_.-~\<close>.\<close>

definition always_safe :: "char \<Rightarrow> bool" where
  "always_safe c =
     (let n = (of_char c :: nat) in
      (65 \<le> n \<and> n \<le> 90) \<or> (97 \<le> n \<and> n \<le> 122) \<or> (48 \<le> n \<and> n \<le> 57) \<or>
      c \<in> set ''_.-~'')"

definition hex_digit :: "nat \<Rightarrow> char" where
  "hex_digit n = ''0123456789ABCDEF'' ! n"

definition percent :: "char \<Rightarrow> string" where
  "percent c =
     (let n = (of_char c :: nat) in [CHR ''%'', hex_digit (n div 16), hex_digit (n mod 16)])"

definition quote_with :: "(char \<Rightarrow> bool) \<Rightarrow> string \<Rightarrow> string" where
  "quote_with safe s = concat (map (\<lambda>c. if safe c then [c] else percent c) s)"

text \<open>\<^verbatim>\<open>urllib.parse.quote(s)\<close>, whose default \<^verbatim>\<open>safe\<close> is \<^verbatim>\<open>'/'\<close>.\<close>

definition quote :: "string \<Rightarrow> string" where
  "quote s = quote_with (\<lambda>c. always_safe c \<or> c = CHR ''/'') s"

text \<open>
  \<^verbatim>\<open>urllib.parse.quote_plus(s)\<close>, with which requests encodes the names and values of
  \<^verbatim>\<open>params\<close>: a space becomes \<^verbatim>\<open>+\<close>, and \<^verbatim>\<open>/\<close> is encoded.
\<close>

definition quote_plus :: "string \<Rightarrow> string" where
  "quote_plus s =
     map (\<lambda>c. if c = CHR '' '' then CHR ''+'' else c)
       (quote_with (\<lambda>c. always_safe c \<or> c = CHR '' '') s)"

text \<open>\<^verbatim>\<open>'&'.join(parts)\<close>\<close>

fun join_amp :: "string list \<Rightarrow> string" where
  "join_amp [] = []"
| "join_amp [p] = p"
| "join_amp (p # q # ps) = p @ CHR ''&'' # join_amp (q # ps)"

text \<open>\<^verbatim>\<open>urlencode(params)\<close>\<close>

definition urlencode :: "(string \<times> string) list \<Rightarrow> string" where
  "urlencode ps = join_amp (map (\<lambda>kv. quote_plus (fst kv) @ CHR ''='' # quote_plus (snd kv)) ps)"

text \<open>
  The URL requests sends: \<^verbatim>\<open>params\<close> are encoded and appended as the query, after
  \<^verbatim>\<open>?\<close>, or after \<^verbatim>\<open>&\<close> when the URL has a query already. (Requests also re-quotes the
  URL; that changes no URL built below, where every character outside the unreserved ones,
  \<^verbatim>\<open>%\<close> and the delimiters is already encoded.)
\<close>

definition prepared_url :: "request \<Rightarrow> string" where
  "prepared_url r =
     (case rq_params r of
        None \<Rightarrow> rq_url r
      | Some ps \<Rightarrow>
          rq_url r @ (if CHR ''?'' \<in> set (rq_url r) then ''&'' else ''?'') @ urlencode ps)"

text \<open>
  The receiving side, as a server reads a query string
  (\<^verbatim>\<open>application/x-www-form-urlencoded\<close>, \<^verbatim>\<open>urllib.parse.parse_qsl\<close> with blank values
  kept): split at \<^verbatim>\<open>&\<close>, split each part at its first \<^verbatim>\<open>=\<close>, turn \<^verbatim>\<open>+\<close> into a space
  and decode \<^verbatim>\<open>%XX\<close>.
\<close>

definition unhex :: "char \<Rightarrow> nat option" where
  "unhex c =
     (let n = (of_char c :: nat) in
      if 48 \<le> n \<and> n \<le> 57 then Some (n - 48)
      else if 65 \<le> n \<and> n \<le> 70 then Some (n - 55)
      else if 97 \<le> n \<and> n \<le> 102 then Some (n - 87)
      else None)"

fun unquote :: "string \<Rightarrow> string" where
  "unquote (c # h1 # h2 # rest) =
     (if c = CHR ''%'' then
        (case (unhex h1, unhex h2) of
           (Some a, Some b) \<Rightarrow> char_of (16 * a + b) # unquote rest
         | _ \<Rightarrow> c # unquote (h1 # h2 # rest))
      else c # unquote (h1 # h2 # rest))"
| "unquote cs = cs"

definition unquote_plus :: "string \<Rightarrow> string" where
  "unquote_plus s = unquote (map (\<lambda>c. if c = CHR ''+'' then CHR '' '' else c) s)"

text \<open>\<^verbatim>\<open>s.split(c)\<close>\<close>

fun split_on :: "char \<Rightarrow> string \<Rightarrow> string list" where
  "split_on c [] = [[]]"
| "split_on c (x # xs) =
     (if x = c then [] # split_on c xs
      else (case split_on c xs of [] \<Rightarrow> [[x]] | p # ps \<Rightarrow> (x # p) # ps))"

definition parse_pair :: "string \<Rightarrow> string \<times> string" where
  "parse_pair part =
     (unquote_plus (takeWhile (\<lambda>c. c \<noteq> CHR ''='') part),
      unquote_plus (drop 1 (dropWhile (\<lambda>c. c \<noteq> CHR ''='') part)))"

definition parse_qsl :: "string \<Rightarrow> (string \<times> string) list" where
  "parse_qsl query = map parse_pair (filter (\<lambda>part. part \<noteq> []) (split_on (CHR ''&'') query))"

text \<open>
  What the remote service receives: the endpoint (the URL up to its query), the decoded
  query parameters in order, and the multipart file part (field name \<^verbatim>\<open>file\<close>: file name,
  the file whose bytes are sent, content type).
\<close>

record received =
  rc_endpoint :: string
  rc_parameters :: "(string \<times> string) list"
  rc_file_part :: "string \<times> string \<times> string"

definition receive :: "request \<Rightarrow> received" where
  "receive r =
     (let url = prepared_url r in
      \<lparr>rc_endpoint = takeWhile (\<lambda>c. c \<noteq> CHR ''?'') url,
       rc_parameters = parse_qsl (drop 1 (dropWhile (\<lambda>c. c \<noteq> CHR ''?'') url)),
       rc_file_part = (rq_file_name r, rq_file_path r, rq_content_type r)\<rparr>)"

subsection \<open>Transcription client: transcribe_file\<close>

text \<open>The UTF-8 bytes of the accented letters in the sentiment names.\<close>

definition c_cedilla :: string where "c_cedilla = [CHR 0xC3, CHR 0xA7]"
definition a_tilde :: string where "a_tilde = [CHR 0xC3, CHR 0xA3]"
definition a_circumflex :: string where "a_circumflex = [CHR 0xC3, CHR 0xA2]"
definition o_acute :: string where "o_acute = [CHR 0xC3, CHR 0xB3]"
definition e_acute :: string where "e_acute = [CHR 0xC3, CHR 0xA9]"

text \<open>The two dictionaries of the branch \<^verbatim>\<open>use_preset\<close>.\<close>

definition insights_preset :: json where
  "insights_preset = JObj
     [(''summarization'', JBool True),
      (''topic_detection'', JObj [(''topics'', JArr [])]),
      (''sentiment_analysis'', JObj
         [(''sentiments'', JArr
            [JStr ''alegria'', JStr (''confian'' @ c_cedilla @ ''a''), JStr ''medo'',
             JStr ''surpresa'', JStr ''tristeza'', JStr (''repugn'' @ a_circumflex @ ''ncia''),
             JStr ''raiva'', JStr (''antecipa'' @ c_cedilla @ a_tilde @ ''o''), JStr ''neutro'',
             JStr (''frustra'' @ c_cedilla @ a_tilde @ ''o''),
             JStr (''satisfa'' @ c_cedilla @ a_tilde @ ''o''),
             JStr (''empolga'' @ c_cedilla @ a_tilde @ ''o''),
             JStr (''decep'' @ c_cedilla @ a_tilde @ ''o''), JStr ''curiosidade'', JStr ''amor'',
             JStr (o_acute @ ''dio''), JStr (''t'' @ e_acute @ ''dio''),
             JStr (''confus'' @ a_tilde @ ''o''), JStr ''constrangimento'', JStr ''culpa''])]),
      (''custom'', JArr
         [JObj [(''type'', JStr ''string''), (''title'', JStr ''agent''),
                (''description'', JStr ''Identifique o nome do agente se houver sido falado.'')],
          JObj [(''type'', JStr ''string''), (''title'', JStr ''client''),
                (''description'', JStr ''Identifique o nome do cliente se tiver sido falado'')],
          JObj [(''type'', JStr ''boolean''), (''title'', JStr ''resolution''),
                (''description'', JStr ''O problema foi resolvido?'')]])]"

definition anonymize_preset :: json where
  "anonymize_preset = JObj
     [(''sequence'', JNum 3),
      (''entities'', JArr [JStr ''CNPJ'', JStr ''CPF'', JStr ''CREDIT_CARD'', JStr ''LOCATION''])]"

text \<open>The two dictionaries of the other branch.\<close>

definition insights_custom :: json where
  "insights_custom = JObj
     [(''summarization'', JBool True),
      (''topic_detection'', JObj [(''topics'', JArr [])]),
      (''sentiment_analysis'', JObj
         [(''sentiments'', JArr
            [JStr ''alegria'', JStr (''confian'' @ c_cedilla @ ''a''), JStr ''medo'',
             JStr ''surpresa'', JStr ''tristeza'', JStr (''repugn'' @ a_circumflex @ ''ncia''),
             JStr ''raiva'', JStr (''antecipa'' @ c_cedilla @ a_tilde @ ''o''), JStr ''neutro'',
             JStr (''frustra'' @ c_cedilla @ a_tilde @ ''o''),
             JStr (''satisfa'' @ c_cedilla @ a_tilde @ ''o''),
             JStr (''empolga'' @ c_cedilla @ a_tilde @ ''o''),
             JStr (''decep'' @ c_cedilla @ a_tilde @ ''o''), JStr ''curiosidade'', JStr ''amor'',
             JStr (o_acute @ ''dio''), JStr (''t'' @ e_acute @ ''dio''),
             JStr (''confus'' @ a_tilde @ ''o''), JStr ''constrangimento'', JStr ''culpa''])]),
      (''custom'', JArr
         [JObj [(''type'', JStr ''string''), (''title'', JStr ''agent''),
                (''description'', JStr ''Identifique o nome do agente se houver sido falado.'')],
          JObj [(''type'', JStr ''string''), (''title'', JStr ''client''),
                (''description'', JStr ''Identifique o nome do cliente se tiver sido falado'')],
          JObj [(''type'', JStr ''boolean''), (''title'', JStr ''resolution''),
                (''description'', JStr ''O problema foi resolvido?'')]])]"

definition anonymize_custom :: json where
  "anonymize_custom = JObj
     [(''sequence'', JNum 3),
      (''entities'', JArr [JStr ''CNPJ'', JStr ''CPF'', JStr ''CREDIT_CARD'', JStr ''LOCATION''])]"

definition base_url :: string where
  "base_url = ''https://api.sippulse.ai''"

text \<open>
  The request of either branch: \<^verbatim>\<open>url\<close> and \<^verbatim>\<open>params\<close> as the branch sets them, and the
  file part \<^verbatim>\<open>(file_name, audio_file, 'audio/mpeg')\<close>, where \<^verbatim>\<open>file_name\<close> is the base name
  of the original path and \<^verbatim>\<open>audio_file\<close> the converted file.
\<close>

definition build_request :: "world \<Rightarrow> bool \<Rightarrow> string \<Rightarrow> string \<Rightarrow> request" where
  "build_request w use_preset audio_file_path actual_file_path =
     (if use_preset then
        \<lparr>rq_url = base_url @
           ''/asr/transcribe?model=pulse-precision&language=pt&response_format=diarization&insights=''
           @ quote (w_dumps w insights_preset) @ ''&anonymize='' @ quote (w_dumps w anonymize_preset),
         rq_params = None,
         rq_file_name = basename audio_file_path,
         rq_file_path = actual_file_path,
         rq_content_type = ''audio/mpeg'',
         rq_timeout = 300\<rparr>
      else
        \<lparr>rq_url = base_url @ ''/asr/transcribe'',
         rq_params = Some
           [(''model'', ''pulse-precision''),
            (''language'', ''pt''),
            (''response_format'', ''diarization''),
            (''insights'', w_dumps w insights_custom),
            (''anonymize'', w_dumps w anonymize_custom)],
         rq_file_name = basename audio_file_path,
         rq_file_path = actual_file_path,
         rq_content_type = ''audio/mpeg'',
         rq_timeout = 300\<rparr>)"

text \<open>
  The \<^verbatim>\<open>try\<close> block: the request is sent; every way out removes the converted file
  behind the test \<^verbatim>\<open>os.path.exists\<close> and returns the body (status 200, body decoded) or
  \<^verbatim>\<open>None\<close>.
\<close>

definition send_request :: "world \<Rightarrow> request \<Rightarrow> string \<Rightarrow> state \<Rightarrow> json option \<times> state" where
  "send_request w req converted_file s =
     (let s1 = emit (Post req) s in
      case w_post w req of
        Response status_code body \<Rightarrow>
          if status_code = 200 then
            (case body of
               Some result \<Rightarrow> (Some result, unlink_if_exists converted_file s1)
             | None \<Rightarrow> (None, unlink_if_exists converted_file s1))
          else (None, unlink_if_exists converted_file s1)
      | RequestException \<Rightarrow> (None, unlink_if_exists converted_file s1)
      | OtherException \<Rightarrow> (None, unlink_if_exists converted_file s1))"

text \<open>
  \<open>transcribe_file\<close>. \<^verbatim>\<open>not converted_file\<close> holds for \<^verbatim>\<open>None\<close> and for the empty
  string. \<^verbatim>\<open>os.path.getsize\<close> stands before the \<^verbatim>\<open>try\<close>: when the converted file does
  not exist its \<^verbatim>\<open>OSError\<close> leaves the function. Past it the file exists, so opening
  it for reading succeeds.
\<close>

definition transcribe_file ::
  "world \<Rightarrow> string \<Rightarrow> bool \<Rightarrow> state \<Rightarrow> (exn + json option) \<times> state" where
  "transcribe_file w audio_file_path use_preset s0 =
     (let s = emit (Transcribe audio_file_path) s0 in
      if audio_file_path \<notin> st_files s then (Inr None, s)
      else
        (case convert_audio_with_ffmpeg w audio_file_path s of
           (None, s1) \<Rightarrow> (Inr None, s1)
         | (Some converted_file, s1) \<Rightarrow>
             if converted_file = [] then (Inr None, s1)
             else if converted_file \<notin> st_files s1 then (Inl OSError, s1)
             else
               (case send_request w
                       (build_request w use_preset audio_file_path converted_file)
                       converted_file s1 of
                  (result, s2) \<Rightarrow> (Inr result, s2))))"

subsection \<open>Webhook forwarder: send_to_webhook\<close>

text \<open>
  The whole body is inside \<^verbatim>\<open>try ... except Exception\<close>. \<^verbatim>\<open>transcription_data.get\<close>
  raises on a value that is not a dictionary, before anything is sent.
\<close>

definition webhook_payload :: "world \<Rightarrow> (string \<times> json) list \<Rightarrow> json" where
  "webhook_payload w transcription_data = JObj
     [(''transcription'', dict_get transcription_data ''transcript'' (JStr [])),
      (''diarization'', dict_get transcription_data ''diarization'' (JArr [])),
      (''insights'', dict_get transcription_data ''insights'' (JObj [])),
      (''metadata'', JObj
         [(''processed_at'', JNum (w_time w)),
          (''source'', JStr ''sippulse_ai_batch_processor'')])]"

definition send_to_webhook :: "world \<Rightarrow> json \<Rightarrow> string \<Rightarrow> state \<Rightarrow> bool \<times> state" where
  "send_to_webhook w transcription_data webhook_endpoint s =
     (case transcription_data of
        JObj kvs \<Rightarrow>
          (let payload = webhook_payload w kvs;
               s1 = emit (WebhookPost webhook_endpoint payload) s
           in case w_webhook w webhook_endpoint payload of
                WStatus status_code \<Rightarrow> (status_code = 200, s1)
              | WException \<Rightarrow> (False, s1))
      | _ \<Rightarrow> (False, s))"

subsection \<open>Batch orchestrator: process_directory\<close>

text \<open>\<^verbatim>\<open>xs[:m]\<close> for an integer \<open>m\<close>: a negative \<open>m\<close> counts from the end.\<close>

definition slice_to :: "int \<Rightarrow> 'a list \<Rightarrow> 'a list" where
  "slice_to m xs = (if 0 \<le> m then take (nat m) xs else take (nat (int (length xs) + m)) xs)"

text \<open>\<^verbatim>\<open>if max_files: unique_files = unique_files[:max_files]\<close>: \<^verbatim>\<open>None\<close> and 0 are false.\<close>

definition truncate_files :: "int option \<Rightarrow> string list \<Rightarrow> string list" where
  "truncate_files max_files unique_files =
     (case max_files of
        None \<Rightarrow> unique_files
      | Some m \<Rightarrow> if m = 0 then unique_files else slice_to m unique_files)"

text \<open>
  The loop over \<^verbatim>\<open>enumerate(unique_files, 1)\<close>: \<open>n\<close> is \<^verbatim>\<open>len(unique_files)\<close>, \<open>i\<close> the
  running index, \<open>results\<close> the list built so far. \<^verbatim>\<open>if webhook_endpoint:\<close> is false
  for \<^verbatim>\<open>None\<close> and for the empty string. An exception of \<open>transcribe_file\<close> leaves the
  loop.
\<close>

fun process_files ::
  "world \<Rightarrow> string option \<Rightarrow> nat \<Rightarrow> nat \<Rightarrow> string list \<Rightarrow> (string \<times> json) list \<Rightarrow> state \<Rightarrow>
   (exn + (string \<times> json) list) \<times> state" where
  "process_files w webhook_endpoint n i [] results s = (Inr results, s)"
| "process_files w webhook_endpoint n i (audio_file # rest) results s =
     (case transcribe_file w audio_file True s of
        (Inl e, s1) \<Rightarrow> (Inl e, s1)
      | (Inr result, s1) \<Rightarrow>
          (let (results1, s2) =
                 (case result of
                    None \<Rightarrow> (results, s1)
                  | Some r \<Rightarrow>
                      if truthy r then
                        (results @ [(audio_file, r)],
                         case webhook_endpoint of
                           None \<Rightarrow> s1
                         | Some u \<Rightarrow>
                             if u \<noteq> [] then snd (send_to_webhook w r u s1) else s1)
                      else (results, s1));
               s3 = (if i < n then emit (Sleep 2) s2 else s2)
           in process_files w webhook_endpoint n (i + 1) rest results1 s3))"

definition process_directory ::
  "world \<Rightarrow> string \<Rightarrow> string option \<Rightarrow> int option \<Rightarrow> state \<Rightarrow>
   (exn + (string \<times> json) list) \<times> state" where
  "process_directory w directory_path webhook_endpoint max_files s =
     (case get_unique_files (w_walk w directory_path) of
        Inl e \<Rightarrow> (Inl e, s)
      | Inr (unique_files, reports) \<Rightarrow>
          if unique_files = [] then (Inr [], s)
          else
            (let selected = truncate_files max_files unique_files
             in process_files w webhook_endpoint (length selected) 1 selected [] s))"

subsection \<open>The command line: main\<close>

record args =
  a_directory :: string
  a_webhook :: "string option"
  a_max_files :: "int option"
  a_test :: bool
  a_no_preset :: bool
  a_list_files :: bool

text \<open>
  Test mode looks for its file itself: the audio files of the walk, sorted by the key
  \<^verbatim>\<open>(0 if x.endswith('.mp3') else 1, x)\<close>, the first one taken.
\<close>

definition test_key :: "string \<Rightarrow> nat \<times> string" where
  "test_key x = (if endswith x ''.mp3'' then 0 else 1, x)"

definition find_test_file :: "dirent list option \<Rightarrow> string option" where
  "find_test_file walk =
     (case walk of
        None \<Rightarrow> None
      | Some entries \<Rightarrow>
          (case sort_key test_key (map d_path (filter is_audio entries)) of
             [] \<Rightarrow> None
           | test_file # others \<Rightarrow> Some test_file))"

text \<open>
  \<open>main\<close> after the arguments are parsed. Listing only prints. In test mode
  \<^verbatim>\<open>if test_file:\<close> is false for no file and for an empty path. Otherwise the batch runs
  and, \<^verbatim>\<open>if results:\<close>, the list is written to the file named after the time.
\<close>

definition main :: "world \<Rightarrow> args \<Rightarrow> state \<Rightarrow> (exn + unit) \<times> state" where
  "main w a s =
     (if a_list_files a then
        (case get_unique_files (w_walk w (a_directory a)) of
           Inl e \<Rightarrow> (Inl e, s)
         | Inr listed \<Rightarrow> (Inr (), s))
      else if a_test a then
        (case find_test_file (w_walk w (a_directory a)) of
           None \<Rightarrow> (Inr (), s)
         | Some test_file \<Rightarrow>
             if test_file = [] then (Inr (), s)
             else
               (case transcribe_file w test_file (\<not> a_no_preset a) s of
                  (Inl e, s1) \<Rightarrow> (Inl e, s1)
                | (Inr result, s1) \<Rightarrow> (Inr (), s1)))
      else
        (case process_directory w (a_directory a) (a_webhook a) (a_max_files a) s of
           (Inl e, s1) \<Rightarrow> (Inl e, s1)
         | (Inr results, s1) \<Rightarrow>
             if results = [] then (Inr (), s1)
             else if w_writable w (w_time w) then
               (Inr (), emit (WriteFile (w_time w) results) s1)
             else (Inl OSError, s1)))"

section \<open>Auxiliary notions for the proofs\<close>

text \<open>
  The files of one stem among the items of a walk, the files a group held before a step,
  the best file of a group and the report a group gives rise to.
\<close>

definition group_files :: "string \<Rightarrow> dirent list \<Rightarrow> candidate list" where
  "group_files k entries =
     map mk_candidate (filter (\<lambda>e. is_audio e \<and> path_stem (d_path e) = k) entries)"

definition old_files :: "file_groups \<Rightarrow> string \<Rightarrow> candidate list" where
  "old_files g k = (case map_of g k of None \<Rightarrow> [] | Some files \<Rightarrow> files)"

definition best_of :: "candidate list \<Rightarrow> candidate" where
  "best_of files = hd (sort_key c_priority files)"

definition report_of :: "string \<times> candidate list \<Rightarrow> dup_report list" where
  "report_of g =
     (if 1 < length (snd g)
      then [\<lparr>r_base_name = fst g,
              r_duplicate_extensions = map c_extension (tl (sort_key c_priority (snd g))),
              r_using = c_extension (best_of (snd g))\<rparr>]
      else [])"

text \<open>
  Readings of a trace: the events of the client between its entry and its return, the
  events that make up the schedule of a batch (entries of \<open>transcribe_file\<close> and
  waits), the writes of the results file, and the paths \<open>transcribe_file\<close> was entered
  with, in order.
\<close>

fun is_client_io :: "event \<Rightarrow> bool" where
  "is_client_io (CreateTemp p) = True"
| "is_client_io (Unlink p) = True"
| "is_client_io (Post r) = True"
| "is_client_io e = False"

fun is_schedule :: "event \<Rightarrow> bool" where
  "is_schedule (Transcribe p) = True"
| "is_schedule (Sleep n) = True"
| "is_schedule e = False"

fun is_write :: "event \<Rightarrow> bool" where
  "is_write (WriteFile t results) = True"
| "is_write e = False"

fun is_post :: "event \<Rightarrow> bool" where
  "is_post (Post r) = True"
| "is_post e = False"

fun attempted :: "event list \<Rightarrow> string list" where
  "attempted [] = []"
| "attempted (Transcribe p # es) = p # attempted es"
| "attempted (e # es) = attempted es"

text \<open>The schedule the loop of \<open>process_directory\<close> follows from index \<open>i\<close> on.\<close>

fun plan :: "nat \<Rightarrow> nat \<Rightarrow> string list \<Rightarrow> event list" where
  "plan n i [] = []"
| "plan n i (f # fs) = Transcribe f # (if i < n then [Sleep 2] else []) @ plan n (Suc i) fs"

text \<open>What \<open>transcribe_file\<close> returns once the converted file is there.\<close>

definition response_result :: "http_outcome \<Rightarrow> json option" where
  "response_result out =
     (case out of
        Response status_code body \<Rightarrow> if status_code = 200 then body else None
      | RequestException \<Rightarrow> None
      | OtherException \<Rightarrow> None)"

text \<open>
  A call of \<open>transcribe_file\<close> counts as a success for the batch when it returns a value
  that \<^verbatim>\<open>if result:\<close> accepts. The files of a batch are the unique files of the
  directory, cut to \<^verbatim>\<open>max_files\<close>. \<open>posted\<close> reads the requests of a trace.
\<close>

fun succeeded :: "exn + json option \<Rightarrow> bool" where
  "succeeded (Inr (Some r)) = truthy r"
| "succeeded x = False"

definition batch_files :: "world \<Rightarrow> string \<Rightarrow> int option \<Rightarrow> string list" where
  "batch_files w directory_path max_files =
     (case get_unique_files (w_walk w directory_path) of
        Inl e \<Rightarrow> []
      | Inr (unique_files, reports) \<Rightarrow> truncate_files max_files unique_files)"

fun posted :: "event list \<Rightarrow> request list" where
  "posted [] = []"
| "posted (Post r # es) = r # posted es"
| "posted (e # es) = posted es"

text \<open>
  A small environment for concrete runs: the directory \<^verbatim>\<open>d\<close> holds \<^verbatim>\<open>a.wav\<close> and
  \<^verbatim>\<open>b.mp3\<close>, every conversion and every upload succeeds, the webhook answers 500.
\<close>

definition example_world :: world where
  "example_world =
     \<lparr>w_walk = (\<lambda>d. if d = ''d''
                  then Some [\<lparr>d_path = ''d/a.wav'', d_is_file = True\<rparr>,
                             \<lparr>d_path = ''d/b.mp3'', d_is_file = True\<rparr>]
                  else None),
      w_tempfile = (\<lambda>f. Some (''/tmp/'' @ basename f)),
      w_ffmpeg = (\<lambda>i out. Exited 0),
      w_post = (\<lambda>r. Response 200 (Some (JObj [(''transcript'', JStr ''hi'')]))),
      w_webhook = (\<lambda>u p. WStatus 500),
      w_dumps = (\<lambda>j. ''{}''),
      w_time = 17,
      w_writable = (\<lambda>t. True)\<rparr>"

definition example_state :: state where
  "example_state = \<lparr>st_files = {''d/a.wav'', ''d/b.mp3''}, st_trace = []\<rparr>"

text \<open>Two parts of the loop body, named for the proofs: the forwarding and the wait.\<close>

definition forward :: "world \<Rightarrow> string option \<Rightarrow> json \<Rightarrow> state \<Rightarrow> state" where
  "forward w webhook_endpoint r s =
     (case webhook_endpoint of
        None \<Rightarrow> s
      | Some u \<Rightarrow> if u \<noteq> [] then snd (send_to_webhook w r u s) else s)"

definition wait_between :: "nat \<Rightarrow> nat \<Rightarrow> state \<Rightarrow> state" where
  "wait_between i n s = (if i < n then emit (Sleep 2) s else s)"

text \<open>
  Variations of the environment: a directory of six audio files with five stems; a
  transcoder that fails on every file; a transcoder that cannot be found.
\<close>

definition example_world5 :: world where
  "example_world5 = example_world
     \<lparr>w_walk := (\<lambda>d. Some
        [\<lparr>d_path = ''d/e.mp3'', d_is_file = True\<rparr>,
         \<lparr>d_path = ''d/a.wav'', d_is_file = True\<rparr>,
         \<lparr>d_path = ''d/c.wav'', d_is_file = True\<rparr>,
         \<lparr>d_path = ''d/b.flac'', d_is_file = True\<rparr>,
         \<lparr>d_path = ''d/d.ogg'', d_is_file = True\<rparr>,
         \<lparr>d_path = ''d/a.mp3'', d_is_file = True\<rparr>])\<rparr>"

definition failing_world :: world where
  "failing_world = example_world\<lparr>w_ffmpeg := (\<lambda>i out. Exited 1)\<rparr>"

definition no_ffmpeg_world :: world where
  "no_ffmpeg_world = example_world\<lparr>w_ffmpeg := (\<lambda>i out. FileNotFoundError)\<rparr>"

definition batch_args :: args where
  "batch_args =
     \<lparr>a_directory = ''d'', a_webhook = None, a_max_files = None, a_test = False,
      a_no_preset = False, a_list_files = False\<rparr>"

section \<open>File discovery\<close>

subsection \<open>Groups\<close>

lemma group_append_keys:
  "map fst (group_append k c g) = (if k \<in> set (map fst g) then map fst g else map fst g @ [k])"
  by (induction g) (force split: if_splits)+

lemma group_append_distinct:
  "distinct (map fst g) \<Longrightarrow> distinct (map fst (group_append k c g))"
  by (simp add: group_append_keys)

lemma group_append_lookup:
  "map_of (group_append k c g) k' =
     (if k' = k then Some (old_files g k @ [c]) else map_of g k')"
  by (induction g) (auto simp: old_files_def)

lemma group_step_distinct:
  "distinct (map fst g) \<Longrightarrow> distinct (map fst (group_step g e))"
  by (simp add: group_step_def group_append_distinct)

lemma foldl_group_step_distinct:
  "distinct (map fst g) \<Longrightarrow> distinct (map fst (foldl group_step g es))"
  by (induction es arbitrary: g) (simp_all add: group_step_distinct)

lemma group_step_lookup:
  "map_of (group_step g e) k =
     (if is_audio e \<and> path_stem (d_path e) = k
      then Some (old_files g k @ [mk_candidate e]) else map_of g k)"
  by (simp add: group_step_def group_append_lookup)

lemma foldl_group_step_lookup:
  "map_of (foldl group_step g es) k =
     (if map_of g k = None \<and> group_files k es = [] then None
      else Some (old_files g k @ group_files k es))"
proof (induction es arbitrary: g)
  case Nil
  show ?case by (simp add: group_files_def old_files_def split: option.splits)
next
  case (Cons e es)
  show ?case
    by (simp add: Cons.IH group_step_lookup)
       (auto simp: group_files_def old_files_def group_step_lookup split: option.splits)
qed

lemma build_groups_lookup:
  "map_of (build_groups es) k = (if group_files k es = [] then None else Some (group_files k es))"
  by (simp add: build_groups_def foldl_group_step_lookup old_files_def)

lemma build_groups_distinct: "distinct (map fst (build_groups es))"
  by (simp add: build_groups_def foldl_group_step_distinct)

lemma build_groups_member:
  "(k, files) \<in> set (build_groups es) \<longleftrightarrow> files \<noteq> [] \<and> files = group_files k es"
proof -
  have "(k, files) \<in> set (build_groups es) \<longleftrightarrow> map_of (build_groups es) k = Some files"
    using build_groups_distinct by (auto)
  then show ?thesis by (auto simp: build_groups_lookup)
qed

lemma sort_key_eq_Nil: "sort_key f xs = [] \<longleftrightarrow> xs = []"
  by (metis length_sort length_0_conv)

lemma select_best_nonempty:
  "\<forall>kf \<in> set g. snd kf \<noteq> [] \<Longrightarrow>
   select_best g = Inr (map (\<lambda>kf. c_path (best_of (snd kf))) g, concat (map report_of g))"
proof (induction g)
  case Nil
  show ?case by simp
next
  case (Cons kf g)
  obtain k files where kf: "kf = (k, files)" by (cases kf)
  from Cons.prems kf have ne: "files \<noteq> []" by simp
  then obtain b others where so: "sort_key c_priority files = b # others"
    by (cases "sort_key c_priority files") (simp_all add: sort_key_eq_Nil)
  have len: "length files = Suc (length others)"
    by (metis so length_sort length_Cons)
  from Cons have IH: "select_best g = Inr (map (\<lambda>kf. c_path (best_of (snd kf))) g, concat (map report_of g))"
    by simp
  have rep: "report_of (k, files) =
      (if others \<noteq> []
       then [\<lparr>r_base_name = k, r_duplicate_extensions = map c_extension others,
               r_using = c_extension b\<rparr>]
       else [])"
    by (simp add: report_of_def best_of_def so len)
  have best: "best_of files = b"
    by (simp add: best_of_def so)
  show ?case
    by (simp add: kf so IH rep best)
qed

lemma best_of_in: "files \<noteq> [] \<Longrightarrow> best_of files \<in> set files"
  unfolding best_of_def
  by (metis hd_in_set set_sort sort_key_eq_Nil)

lemma group_files_stem: "c \<in> set (group_files k es) \<Longrightarrow> path_stem (c_path c) = k"
  by (auto simp: group_files_def mk_candidate_def Let_def)

lemma build_groups_best_stem:
  assumes "kf \<in> set (build_groups es)"
  shows "path_stem (c_path (best_of (snd kf))) = fst kf"
proof -
  obtain k files where kf: "kf = (k, files)" by (cases kf)
  from assms have "(k, files) \<in> set (build_groups es)"
    by (simp add: kf)
  then have "files \<noteq> [] \<and> files = group_files k es"
    by (rule iffD1 [OF build_groups_member])
  then have "files \<noteq> []" "files = group_files k es"
    by blast+
  then have "best_of files \<in> set (group_files k es)"
    using best_of_in by metis
  then show ?thesis by (simp add: kf group_files_stem)
qed

lemma build_groups_nonempty: "\<forall>kf \<in> set (build_groups es). snd kf \<noteq> []"
  using build_groups_member by (metis prod.collapse)

lemma select_best_build_groups:
  "select_best (build_groups es) =
     Inr (map (\<lambda>kf. c_path (best_of (snd kf))) (build_groups es),
          concat (map report_of (build_groups es)))"
  by (rule select_best_nonempty [OF build_groups_nonempty])

lemma selected_stems:
  "map path_stem (map (\<lambda>kf. c_path (best_of (snd kf))) (build_groups es)) = map fst (build_groups es)"
  by (simp add: build_groups_best_stem)

lemma distinct_map_sort:
  "distinct (map f (sort xs)) \<longleftrightarrow> distinct (map f xs)"
  by (simp add: distinct_map)

lemma priority_table:
  "priority_of ''.mp3'' = 0" "priority_of ''.wav'' = 1" "priority_of ''.flac'' = 2"
  "priority_of ''.m4a'' = 3" "priority_of ''.ogg'' = 4" "priority_of ''.wma'' = 5"
  by (simp_all add: priority_of_def extension_priority_def audio_extensions_def upt_rec)

lemma priority_zero_mp3:
  "ext \<in> set audio_extensions \<Longrightarrow> priority_of ext = 0 \<Longrightarrow> ext = ''.mp3''"
  using priority_table by (auto simp: audio_extensions_def)

lemma distinct_map_head: "distinct (map f (y # ys)) \<Longrightarrow> q \<in> set ys \<Longrightarrow> f q \<noteq> f y"
  by (metis distinct.simps(2) imageI list.map(2) set_map)

lemma filter_distinct_key:
  "distinct (map f xs) \<Longrightarrow> x \<in> set xs \<Longrightarrow> filter (\<lambda>q. f q = f x) xs = [x]"
proof (induction xs)
  case Nil
  then show ?case by simp
next
  case (Cons y ys)
  show ?case
  proof (cases "x = y")
    case True
    with Cons.prems have "\<forall>q \<in> set ys. f q \<noteq> f x"
      using distinct_map_head by metis
    then have "filter (\<lambda>q. f q = f x) ys = []" by (simp add: filter_empty_conv)
    with True show ?thesis by simp
  next
    case False
    with Cons.prems have "x \<in> set ys" "f y \<noteq> f x" "distinct (map f ys)" by auto
    with Cons.IH show ?thesis by simp
  qed
qed

lemma report_of_base_name: "r \<in> set (report_of kf) \<Longrightarrow> r_base_name r = fst kf"
  by (auto simp: report_of_def split: if_splits)

lemma filter_report_other:
  "fst h \<noteq> k \<Longrightarrow> filter (\<lambda>r. r_base_name r = k) (report_of h) = []"
  by (simp add: report_of_def)

lemma filter_reports_other:
  "\<forall>h \<in> set g. fst h \<noteq> k \<Longrightarrow>
   filter (\<lambda>r. r_base_name r = k) (concat (map report_of g)) = []"
  by (induction g) (simp_all add: filter_report_other)

lemma filter_reports:
  "distinct (map fst g) \<Longrightarrow> kf \<in> set g \<Longrightarrow>
   filter (\<lambda>r. r_base_name r = fst kf) (concat (map report_of g)) = report_of kf"
proof (induction g)
  case Nil
  then show ?case by simp
next
  case (Cons h g)
  have all: "filter (\<lambda>r. r_base_name r = fst h) (report_of h) = report_of h"
    by (simp add: report_of_base_name)
  show ?case
  proof (cases "kf = h")
    case True
    with Cons.prems have "\<forall>h' \<in> set g. fst h' \<noteq> fst kf"
      using distinct_map_head by metis
    then have "filter (\<lambda>r. r_base_name r = fst kf) (concat (map report_of g)) = []"
      by (rule filter_reports_other)
    with True all show ?thesis by simp
  next
    case False
    with Cons.prems have in_g: "kf \<in> set g" and d: "distinct (map fst g)" and ne: "fst h \<noteq> fst kf"
      by auto
    from ne have "filter (\<lambda>r. r_base_name r = fst kf) (report_of h) = []"
      by (rule filter_report_other)
    with Cons.IH [OF d in_g] show ?thesis by simp
  qed
qed

lemma best_of_least:
  assumes "c \<in> set files"
  shows "c_priority (best_of files) \<le> c_priority c"
proof -
  let ?s = "sort_key c_priority files"
  from assms have ne: "?s \<noteq> []" by (auto simp: sort_key_eq_Nil)
  have srt: "sorted (map c_priority ?s)" by simp
  from assms have "c \<in> set ?s" by simp
  with ne srt show ?thesis
    unfolding best_of_def by (cases ?s) auto
qed

subsection \<open>Members of a group\<close>

lemma group_files_candidate:
  "c \<in> set (group_files k es) \<Longrightarrow>
   c_extension c \<in> set audio_extensions \<and> c_priority c = priority_of (c_extension c) \<and>
   c_extension c = lower (path_suffix (c_path c))"
  by (auto simp: group_files_def mk_candidate_def is_audio_def Let_def)

lemma group_files_intro:
  "e \<in> set es \<Longrightarrow> is_audio e \<Longrightarrow> path_stem (d_path e) = k \<Longrightarrow>
   mk_candidate e \<in> set (group_files k es)"
  by (auto simp: group_files_def)

lemma two_members_length: "a \<in> set xs \<Longrightarrow> b \<in> set xs \<Longrightarrow> a \<noteq> b \<Longrightarrow> 1 < length xs"
  by (cases xs; cases "tl xs") auto

lemma tail_member:
  "c \<in> set files \<Longrightarrow> c \<noteq> best_of files \<Longrightarrow> c \<in> set (tl (sort_key c_priority files))"
proof -
  assume c: "c \<in> set files" and ne: "c \<noteq> best_of files"
  let ?s = "sort_key c_priority files"
  from c have "?s \<noteq> []" by (auto simp: sort_key_eq_Nil)
  then have "?s = best_of files # tl ?s" by (simp add: best_of_def)
  moreover from c have "c \<in> set ?s" by simp
  ultimately have "c \<in> set (best_of files # tl ?s)" by simp
  with ne show ?thesis by simp
qed

lemma stem_suffix_examples:
  "path_stem ''d/a.mp3'' = ''a''" "path_stem ''d/a.wav'' = ''a''" "path_stem ''d/sub/a.flac'' = ''a''"
  "path_stem ''d/b.ogg'' = ''b''"
  "lower (path_suffix ''d/a.mp3'') = ''.mp3''" "lower (path_suffix ''d/a.wav'') = ''.wav''"
  "lower (path_suffix ''d/sub/a.flac'') = ''.flac''"  "lower (path_suffix ''d/b.ogg'') = ''.ogg''"
  by (simp_all add: path_stem_def path_suffix_def basename_def rfind_def lower_def lower_char_def)

section \<open>The client and its temporary file\<close>

lemma emit_simps [simp]:
  "st_files (emit e s) = st_files s" "st_trace (emit e s) = st_trace s @ [e]"
  by (simp_all add: emit_def)

lemma unlink_if_exists_files [simp]: "st_files (unlink_if_exists p s) = st_files s - {p}"
  by (auto simp: unlink_if_exists_def)

lemma unlink_if_exists_trace:
  "st_trace (unlink_if_exists p s) = st_trace s @ (if p \<in> st_files s then [Unlink p] else [])"
  by (simp add: unlink_if_exists_def)

lemma convert_cases:
  "convert_audio_with_ffmpeg w f s = (r, s') \<Longrightarrow>
   (\<exists>evs. st_trace s' = st_trace s @ evs \<and> list_all is_client_io evs) \<and>
   (\<forall>t. r = Some t \<longrightarrow> t \<in> st_files s' \<and> w_tempfile w f = Some t \<and> w_ffmpeg w f t = Exited 0)"
  by (auto simp: convert_audio_with_ffmpeg_def Let_def unlink_if_exists_trace
      split: option.splits run_outcome.splits if_splits)

lemma convert_success:
  "w_tempfile w f = Some t \<Longrightarrow> w_ffmpeg w f t = Exited 0 \<Longrightarrow>
   convert_audio_with_ffmpeg w f s =
     (Some t, emit (CreateTemp t) (s\<lparr>st_files := insert t (st_files s)\<rparr>))"
  by (simp add: convert_audio_with_ffmpeg_def Let_def)

lemma send_request_eq:
  "send_request w req t s =
     (response_result (w_post w req), unlink_if_exists t (emit (Post req) s))"
  by (simp add: send_request_def response_result_def Let_def
      split: http_outcome.splits option.splits)


lemma transcribe_file_returns:
  "\<exists>r s' evs. transcribe_file w f up s = (Inr r, s') \<and>
     st_trace s' = st_trace s @ Transcribe f # evs \<and> list_all is_client_io evs"
proof (cases "f \<in> st_files s")
  case False
  then show ?thesis by (simp add: transcribe_file_def Let_def)
next
  case True
  obtain c s1 where conv: "convert_audio_with_ffmpeg w f (emit (Transcribe f) s) = (c, s1)"
    by (cases "convert_audio_with_ffmpeg w f (emit (Transcribe f) s)")
  from convert_cases [OF conv] obtain evs where
    tr: "st_trace s1 = st_trace s @ Transcribe f # evs" and io: "list_all is_client_io evs"
    and ok: "\<forall>t. c = Some t \<longrightarrow> t \<in> st_files s1"
    by auto
  show ?thesis
  proof (cases c)
    case None
    with True conv tr io show ?thesis by (simp add: transcribe_file_def Let_def)
  next
    case (Some t)
    with ok have tin: "t \<in> st_files s1" by simp
    show ?thesis
    proof (cases "t = []")
      case True
      with \<open>f \<in> st_files s\<close> Some conv tr io show ?thesis
        by (simp add: transcribe_file_def Let_def)
    next
      case False
      with \<open>f \<in> st_files s\<close> Some conv tin
      have "transcribe_file w f up s =
          (Inr (response_result (w_post w (build_request w up f t))),
           unlink_if_exists t (emit (Post (build_request w up f t)) s1))"
        by (simp add: transcribe_file_def Let_def send_request_eq)
      moreover have "st_trace (unlink_if_exists t (emit (Post (build_request w up f t)) s1)) =
          st_trace s @ Transcribe f # (evs @ [Post (build_request w up f t), Unlink t])"
        using tin tr by (simp add: unlink_if_exists_trace)
      moreover have "list_all is_client_io (evs @ [Post (build_request w up f t), Unlink t])"
        using io by simp
      ultimately show ?thesis by blast
    qed
  qed
qed

lemma convert_failure_removes_temp:
  assumes "w_tempfile w f = Some t"
    and "w_ffmpeg w f t = TimeoutExpired \<or> w_ffmpeg w f t = OtherError \<or>
         (\<exists>rc. w_ffmpeg w f t = Exited rc \<and> rc \<noteq> 0)"
  shows "fst (convert_audio_with_ffmpeg w f s) = None \<and>
         t \<notin> st_files (snd (convert_audio_with_ffmpeg w f s))"
  using assms by (auto simp: convert_audio_with_ffmpeg_def Let_def)

section \<open>The batch\<close>

subsection \<open>The trace of the loop\<close>

lemma send_to_webhook_frame:
  "st_files (snd (send_to_webhook w r u s)) = st_files s \<and>
   (\<exists>evs. st_trace (snd (send_to_webhook w r u s)) = st_trace s @ evs \<and>
      filter is_schedule evs = [] \<and> filter is_write evs = [] \<and> posted evs = [])"
  by (cases r) (auto simp: send_to_webhook_def Let_def split: webhook_outcome.splits)

lemma client_io_filters:
  "list_all is_client_io evs \<Longrightarrow> filter is_schedule evs = [] \<and> filter is_write evs = []"
proof (induction evs)
  case Nil
  show ?case by simp
next
  case (Cons e evs)
  then show ?case by (cases e) auto
qed

lemma forward_frame:
  "st_files (forward w wh r s) = st_files s \<and>
   (\<exists>evs. st_trace (forward w wh r s) = st_trace s @ evs \<and>
      filter is_schedule evs = [] \<and> filter is_write evs = [] \<and> posted evs = [])"
proof (cases wh)
  case None
  then show ?thesis by (simp add: forward_def)
next
  case (Some u)
  show ?thesis
  proof (cases "u = []")
    case True
    with Some show ?thesis by (simp add: forward_def)
  next
    case False
    with Some have "forward w wh r s = snd (send_to_webhook w r u s)"
      by (simp add: forward_def)
    then show ?thesis using send_to_webhook_frame by simp
  qed
qed

lemma wait_between_simps [simp]:
  "st_files (wait_between i n s) = st_files s"
  "st_trace (wait_between i n s) = st_trace s @ (if i < n then [Sleep 2] else [])"
  by (simp_all add: wait_between_def)

lemma process_files_failure:
  assumes "transcribe_file w f True s = (Inr r, s1)" and "\<not> succeeded (Inr r)"
  shows "process_files w wh n i (f # fs) results s =
     process_files w wh n (Suc i) fs results (wait_between i n s1)"
  using assms by (cases r) (simp_all add: Let_def wait_between_def)

lemma process_files_success:
  assumes "transcribe_file w f True s = (Inr (Some a), s1)" and "truthy a"
  shows "process_files w wh n i (f # fs) results s =
     process_files w wh n (Suc i) fs (results @ [(f, a)])
       (wait_between i n (forward w wh a s1))"
  using assms by (simp add: Let_def wait_between_def forward_def)

lemma process_files_trace:
  "\<exists>rs s' evs. process_files w wh n i fs results s = (Inr rs, s') \<and>
     st_trace s' = st_trace s @ evs \<and>
     filter is_schedule evs = plan n i fs \<and> filter is_write evs = []"
proof (induction fs arbitrary: i results s)
  case Nil
  show ?case by simp
next
  case (Cons f fs)
  obtain r s1 evs where
    run: "transcribe_file w f True s = (Inr r, s1)"
    and tr: "st_trace s1 = st_trace s @ Transcribe f # evs"
    and io: "list_all is_client_io evs"
    using transcribe_file_returns by blast
  from io have flt: "filter is_schedule evs = []" "filter is_write evs = []"
    using client_io_filters by blast+
  show ?case
  proof (cases "succeeded (Inr r)")
    case False
    let ?s2 = "wait_between i n s1"
    from Cons.IH [of "Suc i" results ?s2] obtain rs s' evs' where
      rest: "process_files w wh n (Suc i) fs results ?s2 = (Inr rs, s')"
      and tr': "st_trace s' = st_trace ?s2 @ evs'"
      and sch: "filter is_schedule evs' = plan n (Suc i) fs"
      and wr: "filter is_write evs' = []"
      by blast
    have "process_files w wh n i (f # fs) results s = (Inr rs, s')"
      using process_files_failure [OF run False] rest by simp
    moreover have "st_trace s' =
        st_trace s @ (Transcribe f # evs @ (if i < n then [Sleep 2] else []) @ evs')"
      using tr tr' by simp
    moreover have "filter is_schedule (Transcribe f # evs @ (if i < n then [Sleep 2] else []) @ evs')
        = plan n i (f # fs)"
      using flt sch by simp
    moreover have "filter is_write (Transcribe f # evs @ (if i < n then [Sleep 2] else []) @ evs') = []"
      using flt wr by simp
    ultimately show ?thesis by blast
  next
    case True
    then obtain a where r: "r = Some a" and ta: "truthy a"
      by (cases r) auto
    let ?s2 = "wait_between i n (forward w wh a s1)"
    from forward_frame [of w wh a s1] obtain hevs where
      htr: "st_trace (forward w wh a s1) = st_trace s1 @ hevs"
      and hflt: "filter is_schedule hevs = []" "filter is_write hevs = []"
      by blast
    from Cons.IH [of "Suc i" "results @ [(f, a)]" ?s2] obtain rs s' evs' where
      rest: "process_files w wh n (Suc i) fs (results @ [(f, a)]) ?s2 = (Inr rs, s')"
      and tr': "st_trace s' = st_trace ?s2 @ evs'"
      and sch: "filter is_schedule evs' = plan n (Suc i) fs"
      and wr: "filter is_write evs' = []"
      by blast
    have "process_files w wh n i (f # fs) results s = (Inr rs, s')"
      using process_files_success [OF run [unfolded r] ta] rest by simp
    moreover have "st_trace s' =
        st_trace s @ (Transcribe f # evs @ hevs @ (if i < n then [Sleep 2] else []) @ evs')"
      using tr tr' htr by simp
    moreover have "filter is_schedule
        (Transcribe f # evs @ hevs @ (if i < n then [Sleep 2] else []) @ evs') = plan n i (f # fs)"
      using flt hflt sch by simp
    moreover have "filter is_write
        (Transcribe f # evs @ hevs @ (if i < n then [Sleep 2] else []) @ evs') = []"
      using flt hflt wr by simp
    ultimately show ?thesis by blast
  qed
qed

subsection \<open>What the webhook cannot change\<close>

lemma build_request_webhook [simp]:
  "build_request (w\<lparr>w_webhook := h\<rparr>) up f t = build_request w up f t"
  by (simp add: build_request_def)

lemma convert_frame:
  assumes "st_files s = st_files t"
  shows "fst (convert_audio_with_ffmpeg (w\<lparr>w_webhook := h\<rparr>) f s) =
           fst (convert_audio_with_ffmpeg w f t) \<and>
         st_files (snd (convert_audio_with_ffmpeg (w\<lparr>w_webhook := h\<rparr>) f s)) =
           st_files (snd (convert_audio_with_ffmpeg w f t))"
  using assms
  by (simp add: convert_audio_with_ffmpeg_def Let_def
      split: option.splits run_outcome.splits)

lemma transcribe_file_frame:
  assumes "st_files s = st_files t"
  shows "fst (transcribe_file (w\<lparr>w_webhook := h\<rparr>) f up s) = fst (transcribe_file w f up t) \<and>
         st_files (snd (transcribe_file (w\<lparr>w_webhook := h\<rparr>) f up s)) =
           st_files (snd (transcribe_file w f up t))"
proof (cases "f \<in> st_files s")
  case False
  with assms show ?thesis by (simp add: transcribe_file_def Let_def)
next
  case True
  let ?w = "w\<lparr>w_webhook := h\<rparr>"
  obtain c s1 where c1: "convert_audio_with_ffmpeg ?w f (emit (Transcribe f) s) = (c, s1)"
    by (cases "convert_audio_with_ffmpeg ?w f (emit (Transcribe f) s)")
  obtain c' t1 where c2: "convert_audio_with_ffmpeg w f (emit (Transcribe f) t) = (c', t1)"
    by (cases "convert_audio_with_ffmpeg w f (emit (Transcribe f) t)")
  have "st_files (emit (Transcribe f) s) = st_files (emit (Transcribe f) t)"
    using assms by simp
  from convert_frame [OF this, where w = w and h = h and f = f] c1 c2
  have eq: "c = c'" "st_files s1 = st_files t1" by simp_all
  from True assms have True': "f \<in> st_files t" by simp
  show ?thesis
    using True True' c1 c2 eq
    by (cases c') (simp_all add: transcribe_file_def Let_def send_request_eq)
qed

lemma forward_files [simp]: "st_files (forward w wh r s) = st_files s"
  using forward_frame by blast

lemma process_files_webhook_free:
  "st_files s = st_files t \<Longrightarrow>
   fst (process_files (w\<lparr>w_webhook := h\<rparr>) wh n i fs results s) =
   fst (process_files w None n i fs results t)"
proof (induction fs arbitrary: i results s t)
  case Nil
  show ?case by simp
next
  case (Cons f fs)
  let ?w = "w\<lparr>w_webhook := h\<rparr>"
  obtain r s1 where run1: "transcribe_file ?w f True s = (Inr r, s1)"
    using transcribe_file_returns by blast
  obtain r' t1 where run2: "transcribe_file w f True t = (Inr r', t1)"
    using transcribe_file_returns by blast
  from transcribe_file_frame [OF Cons.prems, where w = w and h = h and f = f and up = True]
    run1 run2
  have eq: "r = r'" "st_files s1 = st_files t1" by simp_all
  show ?case
  proof (cases "succeeded (Inr r)")
    case False
    then have False': "\<not> succeeded (Inr r')" using eq by simp
    have "st_files (wait_between i n s1) = st_files (wait_between i n t1)"
      using eq by simp
    from Cons.IH [OF this]
    show ?thesis
      using process_files_failure [OF run1 False] process_files_failure [OF run2 False']
      by simp
  next
    case True
    then obtain a where r: "r = Some a" and ta: "truthy a" by (cases r) auto
    have "st_files (wait_between i n (forward ?w wh a s1)) =
        st_files (wait_between i n (forward w None a t1))"
      using eq by simp
    from Cons.IH [OF this]
    show ?thesis
      using process_files_success [OF run1 [unfolded r] ta]
        process_files_success [OF run2 [unfolded eq(1) [symmetric] r] ta]
      by simp
  qed
qed

lemma process_files_results:
  "\<exists>s' new. process_files w wh n i fs results s = (Inr (results @ new), s') \<and>
     list_all (\<lambda>fr. fst fr \<in> set fs \<and> truthy (snd fr)) new \<and>
     ((\<forall>f \<in> set fs. \<forall>s0. \<not> succeeded (fst (transcribe_file w f True s0))) \<longrightarrow> new = [])"
proof (induction fs arbitrary: i results s)
  case Nil
  show ?case by simp
next
  case (Cons f fs)
  obtain r s1 where run: "transcribe_file w f True s = (Inr r, s1)"
    using transcribe_file_returns by blast
  show ?case
  proof (cases "succeeded (Inr r)")
    case False
    from Cons.IH [of "Suc i" results "wait_between i n s1"] obtain s' new where
      rest: "process_files w wh n (Suc i) fs results (wait_between i n s1) =
          (Inr (results @ new), s')"
      and ok: "list_all (\<lambda>fr. fst fr \<in> set fs \<and> truthy (snd fr)) new"
      and none: "(\<forall>f \<in> set fs. \<forall>s0. \<not> succeeded (fst (transcribe_file w f True s0))) \<longrightarrow> new = []"
      by blast
    have "process_files w wh n i (f # fs) results s = (Inr (results @ new), s')"
      using process_files_failure [OF run False] rest by simp
    moreover have "list_all (\<lambda>fr. fst fr \<in> set (f # fs) \<and> truthy (snd fr)) new"
      using ok by (simp add: list_all_iff)
    moreover have "(\<forall>g \<in> set (f # fs). \<forall>s0. \<not> succeeded (fst (transcribe_file w g True s0)))
        \<longrightarrow> new = []"
      using none by simp
    ultimately show ?thesis by blast
  next
    case True
    then obtain a where r: "r = Some a" and ta: "truthy a" by (cases r) auto
    let ?s2 = "wait_between i n (forward w wh a s1)"
    from Cons.IH [of "Suc i" "results @ [(f, a)]" ?s2] obtain s' new where
      rest: "process_files w wh n (Suc i) fs (results @ [(f, a)]) ?s2 =
          (Inr ((results @ [(f, a)]) @ new), s')"
      and ok: "list_all (\<lambda>fr. fst fr \<in> set fs \<and> truthy (snd fr)) new"
      by blast
    have "process_files w wh n i (f # fs) results s = (Inr (results @ ((f, a) # new)), s')"
      using process_files_success [OF run [unfolded r] ta] rest by simp
    moreover have "list_all (\<lambda>fr. fst fr \<in> set (f # fs) \<and> truthy (snd fr)) ((f, a) # new)"
      using ok ta by (simp add: list_all_iff)
    moreover have "\<not> (\<forall>g \<in> set (f # fs). \<forall>s0. \<not> succeeded (fst (transcribe_file w g True s0)))"
    proof
      assume "\<forall>g \<in> set (f # fs). \<forall>s0. \<not> succeeded (fst (transcribe_file w g True s0))"
      then have "\<not> succeeded (fst (transcribe_file w f True s))" by simp
      with run True show False by simp
    qed
    ultimately show ?thesis by blast
  qed
qed

lemma attempted_schedule: "attempted (filter is_schedule evs) = attempted evs"
proof (induction evs)
  case Nil
  show ?case by simp
next
  case (Cons e evs)
  then show ?case by (cases e) simp_all
qed

lemma attempted_plan: "attempted (plan n i fs) = fs"
  by (induction fs arbitrary: i) simp_all

lemma get_unique_files_sorted:
  "get_unique_files walk = Inr (unique_files, reports) \<Longrightarrow> sorted unique_files"
  by (cases walk) (auto simp: get_unique_files_def select_best_build_groups)

lemma get_unique_files_returns: "\<exists>unique_files reports. get_unique_files walk = Inr (unique_files, reports)"
  by (cases walk) (simp_all add: get_unique_files_def select_best_build_groups)

lemma transcribe_file_transcoder_fails:
  assumes "\<And>t. w_ffmpeg w f t = Exited rc" and "rc \<noteq> 0"
  shows "fst (transcribe_file w f up s) = Inr None"
  using assms
  by (simp add: transcribe_file_def convert_audio_with_ffmpeg_def Let_def split: option.splits)

subsection \<open>C1: the mp3 file represents its stem\<close>

text \<open>
  Claim C1. Let the walk of the directory yield three regular files of one stem \<open>s\<close>
  whose extensions, in lower case, are \<^verbatim>\<open>.mp3\<close>, \<^verbatim>\<open>.wav\<close> and \<^verbatim>\<open>.flac\<close> (as \<^verbatim>\<open>a.mp3\<close>,
  \<^verbatim>\<open>a.wav\<close>, \<^verbatim>\<open>a.flac\<close> are), among any other items. Then \<open>get_unique_files\<close> returns a
  list with exactly one path of stem \<open>s\<close>, and that path is an mp3 file; it prints one
  report for \<open>s\<close>, which says that the mp3 is used and lists \<^verbatim>\<open>.wav\<close> and \<^verbatim>\<open>.flac\<close> among the
  dropped extensions. When the three files are all the audio files of that stem, the
  selected path is the mp3 file itself and the dropped extensions are exactly
  \<^verbatim>\<open>.wav\<close>, \<^verbatim>\<open>.flac\<close>, in the order of the format priority.
\<close>

theorem get_unique_files_prefers_mp3:
  assumes in_walk: "e1 \<in> set entries" "e2 \<in> set entries" "e3 \<in> set entries"
    and regular: "d_is_file e1" "d_is_file e2" "d_is_file e3"
    and stems: "path_stem (d_path e1) = s" "path_stem (d_path e2) = s"
      "path_stem (d_path e3) = s"
    and exts: "lower (path_suffix (d_path e1)) = ''.mp3''"
      "lower (path_suffix (d_path e2)) = ''.wav''"
      "lower (path_suffix (d_path e3)) = ''.flac''"
  shows "\<exists>unique_files reports p r.
     get_unique_files (Some entries) = Inr (unique_files, reports) \<and>
     filter (\<lambda>q. path_stem q = s) unique_files = [p] \<and>
     lower (path_suffix p) = ''.mp3'' \<and>
     filter (\<lambda>r. r_base_name r = s) reports = [r] \<and>
     r_using r = ''.mp3'' \<and>
     ''.wav'' \<in> set (r_duplicate_extensions r) \<and>
     ''.flac'' \<in> set (r_duplicate_extensions r) \<and>
     (mset (filter (\<lambda>e. is_audio e \<and> path_stem (d_path e) = s) entries) = {#e1, e2, e3#}
        \<longrightarrow> p = d_path e1 \<and> r_duplicate_extensions r = [''.wav'', ''.flac''])"
proof -
  define G where "G = build_groups entries"
  define F where "F = group_files s entries"
  define sel where "sel = map (\<lambda>kf. c_path (best_of (snd kf))) G"
  define b where "b = best_of F"
  define rest where "rest = tl (sort_key c_priority F)"
  define r where "r = \<lparr>r_base_name = s, r_duplicate_extensions = map c_extension rest,
             r_using = c_extension b\<rparr>"
  define c1 where "c1 = mk_candidate e1"
  define c2 where "c2 = mk_candidate e2"
  define c3 where "c3 = mk_candidate e3"
  have au: "is_audio e1" "is_audio e2" "is_audio e3"
    using regular exts by (simp_all add: is_audio_def audio_extensions_def)
  have cin: "c1 \<in> set F" "c2 \<in> set F" "c3 \<in> set F"
    unfolding c1_def c2_def c3_def F_def
    using in_walk au stems by (simp_all add: group_files_intro)
  have cext: "c_extension c1 = ''.mp3''" "c_extension c2 = ''.wav''" "c_extension c3 = ''.flac''"
    unfolding c1_def c2_def c3_def using exts by (simp_all add: mk_candidate_def Let_def)
  have cpri: "c_priority c1 = 0" "c_priority c2 = 1" "c_priority c3 = 2"
    unfolding c1_def c2_def c3_def using exts
    by (simp_all add: mk_candidate_def Let_def priority_table)
  have cpath: "c_path c1 = d_path e1"
    unfolding c1_def by (simp add: mk_candidate_def Let_def)
  from cin have ne: "F \<noteq> []" by auto
  then have mem: "(s, F) \<in> set G"
    unfolding G_def F_def by (simp add: build_groups_member)
  have gu: "get_unique_files (Some entries) = Inr (sort sel, concat (map report_of G))"
    unfolding sel_def G_def by (simp add: get_unique_files_def select_best_build_groups)
  \<comment> \<open>the representative of the stem\<close>
  have bin: "b \<in> set F" unfolding b_def using ne by (rule best_of_in)
  have pstem: "path_stem (c_path b) = s"
    using build_groups_best_stem [of "(s, F)" entries] mem unfolding G_def b_def by simp
  have "c_path (best_of (snd (s, F))) \<in> set sel"
    unfolding sel_def using mem by (simp only: set_map image_eqI)
  then have pin: "c_path b \<in> set (sort sel)" by (simp add: b_def)
  have "distinct (map path_stem sel)"
    unfolding sel_def G_def using selected_stems build_groups_distinct by metis
  then have "distinct (map path_stem (sort sel))"
    by (simp only: distinct_map_sort)
  from filter_distinct_key [OF this pin]
  have sole: "filter (\<lambda>q. path_stem q = s) (sort sel) = [c_path b]"
    by (simp add: pstem)
  \<comment> \<open>it is an mp3\<close>
  have "c_priority b \<le> c_priority c1" unfolding b_def using cin(1) by (rule best_of_least)
  then have b0: "c_priority b = 0" by (simp add: cpri)
  have bcand: "c_extension b \<in> set audio_extensions \<and> c_priority b = priority_of (c_extension b) \<and>
     c_extension b = lower (path_suffix (c_path b))"
    using bin unfolding F_def by (rule group_files_candidate)
  then have k1: "c_extension b \<in> set audio_extensions"
    and k2: "c_priority b = priority_of (c_extension b)"
    and k3: "c_extension b = lower (path_suffix (c_path b))"
    by blast+
  from k2 b0 have "priority_of (c_extension b) = 0" by simp
  with k1 have bext: "c_extension b = ''.mp3''"
    by (rule priority_zero_mp3)
  with k3 have bsuf: "lower (path_suffix (c_path b)) = ''.mp3''" by simp
  \<comment> \<open>the report\<close>
  have "c1 \<noteq> c2" using cpri by auto
  with cin(1) cin(2) have len: "1 < length F" by (rule two_members_length)
  have "filter (\<lambda>r. r_base_name r = fst (s, F)) (concat (map report_of G)) = report_of (s, F)"
    unfolding G_def using build_groups_distinct mem [unfolded G_def] by (rule filter_reports)
  then have rep: "filter (\<lambda>r. r_base_name r = s) (concat (map report_of G)) = [r]"
    using len by (simp add: report_of_def r_def rest_def b_def)
  have nb: "c2 \<noteq> best_of F" "c3 \<noteq> best_of F"
    using cpri b0 unfolding b_def by auto
  have "c2 \<in> set rest" unfolding rest_def using cin(2) nb(1) by (rule tail_member)
  moreover have "c3 \<in> set rest" unfolding rest_def using cin(3) nb(2) by (rule tail_member)
  ultimately have "c2 \<in> set rest" "c3 \<in> set rest" by blast+
  then have "c_extension c2 \<in> set (map c_extension rest)"
    "c_extension c3 \<in> set (map c_extension rest)"
    by simp_all
  then have dups: "''.wav'' \<in> set (map c_extension rest)" "''.flac'' \<in> set (map c_extension rest)"
    by (simp_all only: cext)
  \<comment> \<open>when the three files are the whole group\<close>
  have exact: "b = c1 \<and> rest = [c2, c3]"
    if three: "mset (filter (\<lambda>e. is_audio e \<and> path_stem (d_path e) = s) entries) = {#e1, e2, e3#}"
  proof -
    have "mset F = image_mset mk_candidate {#e1, e2, e3#}"
      unfolding F_def group_files_def by (simp only: mset_map three)
    then have ms: "mset F = mset [c1, c2, c3]"
      by (simp add: c1_def c2_def c3_def)
    then have "set F = set [c1, c2, c3]"
      by (rule mset_eq_setD)
    then have inj: "inj_on c_priority (set F)"
      using cpri by (simp add: inj_on_def) 
    have "sorted (map c_priority [c1, c2, c3])" by (simp add: cpri)
    with ms inj have "sort_key c_priority F = [c1, c2, c3]"
      by (rule sort_key_inj_key_eq)
    then show ?thesis by (simp add: b_def rest_def best_of_def)
  qed
  have last: "mset (filter (\<lambda>e. is_audio e \<and> path_stem (d_path e) = s) entries) = {#e1, e2, e3#}
        \<longrightarrow> c_path b = d_path e1 \<and> r_duplicate_extensions r = [''.wav'', ''.flac'']"
    using exact cext cpath by (simp add: r_def)
  have ru: "r_using r = ''.mp3''" using bext by (simp add: r_def)
  have rd: "''.wav'' \<in> set (r_duplicate_extensions r)" "''.flac'' \<in> set (r_duplicate_extensions r)"
    using dups by (simp_all add: r_def)
  show ?thesis
    apply (rule exI [of _ "sort sel"])
    apply (rule exI [of _ "concat (map report_of G)"])
    apply (rule exI [of _ "c_path b"])
    apply (rule exI [of _ r])
    using gu sole bsuf rep ru rd last apply blast
    done
qed

theorem get_unique_files_prefers_mp3_witness:
  "d_is_file \<lparr>d_path = ''d/a.mp3'', d_is_file = True\<rparr> \<and>
   path_stem ''d/a.mp3'' = ''a'' \<and> path_stem ''d/a.wav'' = ''a'' \<and>
   path_stem ''d/sub/a.flac'' = ''a'' \<and>
   lower (path_suffix ''d/a.mp3'') = ''.mp3'' \<and> lower (path_suffix ''d/a.wav'') = ''.wav'' \<and>
   lower (path_suffix ''d/sub/a.flac'') = ''.flac'' \<and>
   (\<exists>unique_files reports r.
      get_unique_files (Some
        [\<lparr>d_path = ''d/a.wav'', d_is_file = True\<rparr>,
         \<lparr>d_path = ''d/sub/a.flac'', d_is_file = True\<rparr>,
         \<lparr>d_path = ''d/b.ogg'', d_is_file = True\<rparr>,
         \<lparr>d_path = ''d/a.mp3'', d_is_file = True\<rparr>]) = Inr (unique_files, reports) \<and>
      filter (\<lambda>q. path_stem q = ''a'') unique_files = [''d/a.mp3''] \<and>
      filter (\<lambda>r. r_base_name r = ''a'') reports = [r] \<and>
      r_using r = ''.mp3'' \<and> r_duplicate_extensions r = [''.wav'', ''.flac''])"
proof -
  define e1 where "e1 = \<lparr>d_path = ''d/a.mp3'', d_is_file = True\<rparr>"
  define e2 where "e2 = \<lparr>d_path = ''d/a.wav'', d_is_file = True\<rparr>"
  define e3 where "e3 = \<lparr>d_path = ''d/sub/a.flac'', d_is_file = True\<rparr>"
  define es where "es = [e2, e3, \<lparr>d_path = ''d/b.ogg'', d_is_file = True\<rparr>, e1]"
  have three: "mset (filter (\<lambda>e. is_audio e \<and> path_stem (d_path e) = ''a'') es) = {#e1, e2, e3#}"
    by (simp add: es_def e1_def e2_def e3_def is_audio_def stem_suffix_examples audio_extensions_def)
  have p1: "d_path e1 = ''d/a.mp3''" by (simp add: e1_def)
  have "\<exists>unique_files reports p r.
     get_unique_files (Some es) = Inr (unique_files, reports) \<and>
     filter (\<lambda>q. path_stem q = ''a'') unique_files = [p] \<and>
     lower (path_suffix p) = ''.mp3'' \<and>
     filter (\<lambda>r. r_base_name r = ''a'') reports = [r] \<and>
     r_using r = ''.mp3'' \<and>
     ''.wav'' \<in> set (r_duplicate_extensions r) \<and>
     ''.flac'' \<in> set (r_duplicate_extensions r) \<and>
     (mset (filter (\<lambda>e. is_audio e \<and> path_stem (d_path e) = ''a'') es) = {#e1, e2, e3#}
        \<longrightarrow> p = d_path e1 \<and> r_duplicate_extensions r = [''.wav'', ''.flac''])"
    by (rule get_unique_files_prefers_mp3)
       (simp_all add: es_def e1_def e2_def e3_def stem_suffix_examples)
  then obtain u reps p r where
    a: "get_unique_files (Some es) = Inr (u, reps)"
      "filter (\<lambda>q. path_stem q = ''a'') u = [p]"
      "filter (\<lambda>r. r_base_name r = ''a'') reps = [r]"
      "r_using r = ''.mp3''"
    and imp: "mset (filter (\<lambda>e. is_audio e \<and> path_stem (d_path e) = ''a'') es) = {#e1, e2, e3#}
        \<longrightarrow> p = d_path e1 \<and> r_duplicate_extensions r = [''.wav'', ''.flac'']"
    by blast
  from imp three p1 have b: "p = ''d/a.mp3''" "r_duplicate_extensions r = [''.wav'', ''.flac'']"
    by simp_all
  from a b have "\<exists>unique_files reports r.
      get_unique_files (Some es) = Inr (unique_files, reports) \<and>
      filter (\<lambda>q. path_stem q = ''a'') unique_files = [''d/a.mp3''] \<and>
      filter (\<lambda>r. r_base_name r = ''a'') reports = [r] \<and>
      r_using r = ''.mp3'' \<and> r_duplicate_extensions r = [''.wav'', ''.flac'']"
    by blast
  then show ?thesis
    unfolding es_def e1_def e2_def e3_def by (simp add: stem_suffix_examples)
qed

subsection \<open>C2: the converted file is removed exactly once\<close>

text \<open>
  Claim C2. Let the original file exist and its normalisation succeed: the temporary file
  gets the (non-empty) name \<open>t\<close> and the transcoder exits with status 0. Then, whatever
  the upload does (status 200 with or without a decodable body, another status, a request
  exception, any other exception), \<open>transcribe_file\<close> returns without raising, and between
  its entry and its return the trace holds exactly: the entry, the creation of \<open>t\<close>, the
  one request, and one removal of \<open>t\<close>. So \<open>t\<close> is removed exactly once, after the request and
  before the return, and does not exist afterwards. The value returned is the decoded body
  for status 200 and \<^verbatim>\<open>None\<close> in every other case.
\<close>

theorem transcribe_file_deletes_temp_once:
  assumes present: "audio_file_path \<in> st_files s"
    and named: "w_tempfile w audio_file_path = Some t" "t \<noteq> []"
    and converted: "w_ffmpeg w audio_file_path t = Exited 0"
  shows "\<exists>s'. transcribe_file w audio_file_path use_preset s =
           (Inr (response_result (w_post w (build_request w use_preset audio_file_path t))), s') \<and>
         st_trace s' = st_trace s @
           [Transcribe audio_file_path, CreateTemp t,
            Post (build_request w use_preset audio_file_path t), Unlink t] \<and>
         length (filter (\<lambda>e. e = Unlink t) (drop (length (st_trace s)) (st_trace s'))) = 1 \<and>
         t \<notin> st_files s'"
proof -
  let ?req = "build_request w use_preset audio_file_path t"
  let ?s1 = "emit (CreateTemp t)
     ((emit (Transcribe audio_file_path) s)
        \<lparr>st_files := insert t (st_files (emit (Transcribe audio_file_path) s))\<rparr>)"
  let ?s' = "unlink_if_exists t (emit (Post ?req) ?s1)"
  have conv: "convert_audio_with_ffmpeg w audio_file_path (emit (Transcribe audio_file_path) s) =
      (Some t, ?s1)"
    using named(1) converted by (rule convert_success)
  have run: "transcribe_file w audio_file_path use_preset s =
      (Inr (response_result (w_post w ?req)), ?s')"
    using present named(2) by (simp add: transcribe_file_def Let_def conv send_request_eq)
  have tr: "st_trace ?s' = st_trace s @
      [Transcribe audio_file_path, CreateTemp t, Post ?req, Unlink t]"
    by (simp add: unlink_if_exists_trace)
  have gone: "t \<notin> st_files ?s'" by simp
  have once: "length (filter (\<lambda>e. e = Unlink t) (drop (length (st_trace s)) (st_trace ?s'))) = 1"
    unfolding tr by simp
  from run tr once gone show ?thesis by blast
qed

theorem transcribe_file_deletes_temp_once_witness:
  "''d/a.wav'' \<in> st_files example_state \<and>
   w_tempfile example_world ''d/a.wav'' = Some ''/tmp/a.wav'' \<and>
   w_ffmpeg example_world ''d/a.wav'' ''/tmp/a.wav'' = Exited 0 \<and>
   (\<exists>s'. transcribe_file example_world ''d/a.wav'' False example_state =
           (Inr (Some (JObj [(''transcript'', JStr ''hi'')])), s') \<and>
         st_trace s' =
           [Transcribe ''d/a.wav'', CreateTemp ''/tmp/a.wav'',
            Post (build_request example_world False ''d/a.wav'' ''/tmp/a.wav''),
            Unlink ''/tmp/a.wav''] \<and>
         ''/tmp/a.wav'' \<notin> st_files s')"
proof -
  have h1: "''d/a.wav'' \<in> st_files example_state" by (simp add: example_state_def)
  have h2: "w_tempfile example_world ''d/a.wav'' = Some ''/tmp/a.wav''"
    by (simp add: example_world_def basename_def)
  have h3: "''/tmp/a.wav'' \<noteq> []" by simp
  have h4: "w_ffmpeg example_world ''d/a.wav'' ''/tmp/a.wav'' = Exited 0"
    by (simp add: example_world_def)
  have out: "response_result (w_post example_world
       (build_request example_world False ''d/a.wav'' ''/tmp/a.wav'')) =
     Some (JObj [(''transcript'', JStr ''hi'')])"
    by (simp add: example_world_def response_result_def)
  have tr: "st_trace example_state = []" by (simp add: example_state_def)
  from transcribe_file_deletes_temp_once [OF h1 h2 h3 h4, of False]
  have "\<exists>s'. transcribe_file example_world ''d/a.wav'' False example_state =
           (Inr (Some (JObj [(''transcript'', JStr ''hi'')])), s') \<and>
         st_trace s' =
           [Transcribe ''d/a.wav'', CreateTemp ''/tmp/a.wav'',
            Post (build_request example_world False ''d/a.wav'' ''/tmp/a.wav''),
            Unlink ''/tmp/a.wav''] \<and>
         ''/tmp/a.wav'' \<notin> st_files s'"
    unfolding out tr by auto
  with h1 h2 h4 show ?thesis by blast
qed

subsection \<open>C4: a missing transcoder leaves the temporary file behind\<close>

text \<open>
  Claim C4 says that every failure of \<open>convert_audio_with_ffmpeg\<close> returns \<^verbatim>\<open>None\<close> and
  leaves no temporary file. For a timeout, a nonzero exit status and any other exception of
  the run that is so (\<open>convert_failure_removes_temp\<close>). The handler of
  \<^verbatim>\<open>FileNotFoundError\<close> returns \<^verbatim>\<open>None\<close> without removing anything: run where the transcoder
  cannot be found, the function returns \<^verbatim>\<open>None\<close>, and the file it created, which did not
  exist before, exists afterwards; the trace holds its creation and no removal.
\<close>

theorem convert_missing_transcoder_leaves_temp:
  "w_tempfile no_ffmpeg_world ''d/a.wav'' = Some ''/tmp/a.wav'' \<and>
   w_ffmpeg no_ffmpeg_world ''d/a.wav'' ''/tmp/a.wav'' = FileNotFoundError \<and>
   ''/tmp/a.wav'' \<notin> st_files example_state \<and>
   fst (convert_audio_with_ffmpeg no_ffmpeg_world ''d/a.wav'' example_state) = None \<and>
   ''/tmp/a.wav'' \<in> st_files (snd (convert_audio_with_ffmpeg no_ffmpeg_world ''d/a.wav'' example_state)) \<and>
   st_trace (snd (convert_audio_with_ffmpeg no_ffmpeg_world ''d/a.wav'' example_state)) =
     [CreateTemp ''/tmp/a.wav'']"
  by (simp add: convert_audio_with_ffmpeg_def no_ffmpeg_world_def example_world_def
      example_state_def basename_def Let_def)

subsection \<open>C5: the batch does not read the flag\<close>

text \<open>
  Claim C5 says that with \<^verbatim>\<open>--no-preset\<close> every request of the run passes its parameters
  separately. \<open>process_directory\<close> calls \<open>transcribe_file\<close> without \<^verbatim>\<open>use_preset\<close>, so in a
  batch run with the flag both requests are the ones of the preset mode, with no separate
  parameters; only test mode passes the flag on.
\<close>

theorem batch_ignores_no_preset:
  "map rq_params (posted (st_trace (snd (main example_world
      (batch_args\<lparr>a_no_preset := True\<rparr>) example_state)))) = [None, None] \<and>
   posted (st_trace (snd (main example_world (batch_args\<lparr>a_no_preset := True\<rparr>) example_state))) =
     [build_request example_world True ''d/a.wav'' ''/tmp/a.wav'',
      build_request example_world True ''d/b.mp3'' ''/tmp/b.mp3''] \<and>
   posted (st_trace (snd (main example_world
      (batch_args\<lparr>a_no_preset := True, a_test := True\<rparr>) example_state))) =
     [build_request example_world False ''d/b.mp3'' ''/tmp/b.mp3'']"
  by code_simp

subsection \<open>C6: the result is sorted and holds one path per stem\<close>

text \<open>
  Claim C6. Whatever the walk of the directory yields (also when the directory does not
  exist), \<open>get_unique_files\<close> returns a list, without raising; the list is sorted in the
  order of Python's strings, and no two of its paths have the same stem, wherever in the
  tree the files were found.
\<close>

theorem get_unique_files_sorted_distinct_stems:
  "\<exists>unique_files reports.
     get_unique_files walk = Inr (unique_files, reports) \<and>
     sorted unique_files \<and> distinct (map path_stem unique_files)"
proof (cases walk)
  case None
  then show ?thesis by (simp add: get_unique_files_def)
next
  case (Some es)
  let ?sel = "map (\<lambda>kf. c_path (best_of (snd kf))) (build_groups es)"
  have "distinct (map path_stem ?sel)"
    using selected_stems build_groups_distinct by metis
  then have "distinct (map path_stem (sort ?sel))"
    by (simp only: distinct_map_sort)
  then show ?thesis
    by (simp add: Some get_unique_files_def select_best_build_groups)
qed

theorem get_unique_files_sorted_distinct_stems_witness:
  "get_unique_files (Some
     [\<lparr>d_path = ''d/x/a.wav'', d_is_file = True\<rparr>,
      \<lparr>d_path = ''d/b.ogg'', d_is_file = True\<rparr>,
      \<lparr>d_path = ''d/y/a.mp3'', d_is_file = True\<rparr>]) =
     Inr ([''d/b.ogg'', ''d/y/a.mp3''],
          [\<lparr>r_base_name = ''a'', r_duplicate_extensions = [''.wav''], r_using = ''.mp3''\<rparr>]) \<and>
   sorted [''d/b.ogg'', ''d/y/a.mp3''] \<and>
   distinct (map path_stem [''d/b.ogg'', ''d/y/a.mp3''])"
proof -
  define walk where "walk = Some
     [\<lparr>d_path = ''d/x/a.wav'', d_is_file = True\<rparr>,
      \<lparr>d_path = ''d/b.ogg'', d_is_file = True\<rparr>,
      \<lparr>d_path = ''d/y/a.mp3'', d_is_file = True\<rparr>]"
  have ev: "get_unique_files walk = Inr ([''d/b.ogg'', ''d/y/a.mp3''],
          [\<lparr>r_base_name = ''a'', r_duplicate_extensions = [''.wav''], r_using = ''.mp3''\<rparr>])"
    unfolding walk_def by code_simp
  from get_unique_files_sorted_distinct_stems [of walk] ev
  have "sorted [''d/b.ogg'', ''d/y/a.mp3''] \<and> distinct (map path_stem [''d/b.ogg'', ''d/y/a.mp3''])"
    by auto
  with ev show ?thesis unfolding walk_def by blast
qed

subsection \<open>C7: a cap of two files\<close>

text \<open>
  Claim C7. Let the directory hold five unique files, \<open>f1\<close> to \<open>f5\<close> in the order
  \<open>get_unique_files\<close> returns them, which is the sorted order. With \<^verbatim>\<open>max_files=2\<close>,
  \<open>process_directory\<close> returns without raising, and the entries of \<open>transcribe_file\<close> and
  the waits it adds to the trace are exactly: \<open>f1\<close> is processed, one wait of 2 seconds,
  \<open>f2\<close> is processed. No other file is processed and nothing is waited for after \<open>f2\<close>.
\<close>

theorem process_directory_max_files_two:
  assumes found: "get_unique_files (w_walk w directory_path) = Inr ([f1, f2, f3, f4, f5], reports)"
  shows "sorted [f1, f2, f3, f4, f5] \<and>
     (\<exists>results s' evs.
        process_directory w directory_path webhook_endpoint (Some 2) s = (Inr results, s') \<and>
        st_trace s' = st_trace s @ evs \<and>
        filter is_schedule evs = [Transcribe f1, Sleep 2, Transcribe f2])"
proof -
  have srt: "sorted [f1, f2, f3, f4, f5]"
    using found by (rule get_unique_files_sorted)
  have cut: "truncate_files (Some 2) [f1, f2, f3, f4, f5] = [f1, f2]"
    by (simp add: truncate_files_def slice_to_def)
  have run: "process_directory w directory_path webhook_endpoint (Some 2) s =
      process_files w webhook_endpoint (length [f1, f2]) 1 [f1, f2] [] s"
    by (simp add: process_directory_def found cut del: process_files.simps)
  from process_files_trace [of w webhook_endpoint "length [f1, f2]" 1 "[f1, f2]" "[]" s]
  obtain rs s' evs where
    "process_files w webhook_endpoint (length [f1, f2]) 1 [f1, f2] [] s = (Inr rs, s')"
    "st_trace s' = st_trace s @ evs"
    "filter is_schedule evs = plan (length [f1, f2]) 1 [f1, f2]"
    by blast
  moreover have "plan (length [f1, f2]) 1 [f1, f2] = [Transcribe f1, Sleep 2, Transcribe f2]"
    by simp
  ultimately have "\<exists>results s' evs.
        process_directory w directory_path webhook_endpoint (Some 2) s = (Inr results, s') \<and>
        st_trace s' = st_trace s @ evs \<and>
        filter is_schedule evs = [Transcribe f1, Sleep 2, Transcribe f2]"
    unfolding run by metis
  with srt show ?thesis by blast
qed

theorem process_directory_max_files_two_witness:
  "get_unique_files (w_walk example_world5 ''d'') =
     Inr ([''d/a.mp3'', ''d/b.flac'', ''d/c.wav'', ''d/d.ogg'', ''d/e.mp3''],
          [\<lparr>r_base_name = ''a'', r_duplicate_extensions = [''.wav''], r_using = ''.mp3''\<rparr>]) \<and>
   (\<exists>results s' evs.
      process_directory example_world5 ''d'' None (Some 2) example_state = (Inr results, s') \<and>
      st_trace s' = st_trace example_state @ evs \<and>
      filter is_schedule evs = [Transcribe ''d/a.mp3'', Sleep 2, Transcribe ''d/b.flac''])"
proof -
  have found: "get_unique_files (w_walk example_world5 ''d'') =
     Inr ([''d/a.mp3'', ''d/b.flac'', ''d/c.wav'', ''d/d.ogg'', ''d/e.mp3''],
          [\<lparr>r_base_name = ''a'', r_duplicate_extensions = [''.wav''], r_using = ''.mp3''\<rparr>])"
    by code_simp
  from process_directory_max_files_two [OF found, of None example_state] found
  show ?thesis by blast
qed

subsection \<open>C8: a batch without a success writes no file\<close>

text \<open>
  Claim C8. In batch mode (neither listing nor test mode) \<open>process_directory\<close> returns a
  list \<open>out\<close> without raising. Every entry of \<open>out\<close> is a file of the batch with the value
  \<open>transcribe_file\<close> returned for it, a value \<^verbatim>\<open>if result:\<close> accepts. When every file of the
  batch fails (in whatever state of the file system its turn comes), \<open>out\<close> is empty.
  \<open>main\<close> writes the results file exactly when \<open>out\<close> is not empty (and the file can be
  opened): with an empty \<open>out\<close> the run adds no write to the trace and ends normally.
\<close>

theorem batch_all_failed_writes_nothing:
  assumes mode: "\<not> a_list_files a" "\<not> a_test a"
  shows "\<exists>out s1 s' evs.
     process_directory w (a_directory a) (a_webhook a) (a_max_files a) s = (Inr out, s1) \<and>
     list_all (\<lambda>fr. fst fr \<in> set (batch_files w (a_directory a) (a_max_files a)) \<and>
                 truthy (snd fr)) out \<and>
     ((\<forall>f \<in> set (batch_files w (a_directory a) (a_max_files a)).
         \<forall>s0. \<not> succeeded (fst (transcribe_file w f True s0))) \<longrightarrow> out = []) \<and>
     main w a s = (if out = [] \<or> w_writable w (w_time w) then Inr () else Inl OSError, s') \<and>
     st_trace s' = st_trace s @ evs \<and>
     filter is_write evs =
       (if out \<noteq> [] \<and> w_writable w (w_time w) then [WriteFile (w_time w) out] else [])"
proof -
  let ?d = "a_directory a" and ?wh = "a_webhook a" and ?mf = "a_max_files a"
  obtain uf reps where found: "get_unique_files (w_walk w ?d) = Inr (uf, reps)"
    using get_unique_files_returns by blast
  let ?sel = "truncate_files ?mf uf"
  have batch: "batch_files w ?d ?mf = ?sel"
    by (simp add: batch_files_def found)
  have "\<exists>out s1 evs1.
     process_directory w ?d ?wh ?mf s = (Inr out, s1) \<and>
     list_all (\<lambda>fr. fst fr \<in> set ?sel \<and> truthy (snd fr)) out \<and>
     ((\<forall>f \<in> set ?sel. \<forall>s0. \<not> succeeded (fst (transcribe_file w f True s0))) \<longrightarrow> out = []) \<and>
     st_trace s1 = st_trace s @ evs1 \<and> filter is_write evs1 = []"
  proof (cases "uf = []")
    case True
    then have "process_directory w ?d ?wh ?mf s = (Inr [], s)"
      by (simp add: process_directory_def found)
    then show ?thesis by simp
  next
    case False
    then have run: "process_directory w ?d ?wh ?mf s =
        process_files w ?wh (length ?sel) 1 ?sel [] s"
      by (simp add: process_directory_def found Let_def)
    from process_files_results [of w ?wh "length ?sel" 1 ?sel "[]" s]
    have "\<exists>s1 new. process_files w ?wh (length ?sel) 1 ?sel [] s = (Inr new, s1) \<and>
        list_all (\<lambda>fr. fst fr \<in> set ?sel \<and> truthy (snd fr)) new \<and>
        ((\<forall>f \<in> set ?sel. \<forall>s0. \<not> succeeded (fst (transcribe_file w f True s0))) \<longrightarrow> new = [])"
      by simp
    then obtain s1 new where
      r1: "process_files w ?wh (length ?sel) 1 ?sel [] s = (Inr new, s1)"
      and r2: "list_all (\<lambda>fr. fst fr \<in> set ?sel \<and> truthy (snd fr)) new"
      and r3: "(\<forall>f \<in> set ?sel. \<forall>s0. \<not> succeeded (fst (transcribe_file w f True s0))) \<longrightarrow> new = []"
      by blast
    from process_files_trace [of w ?wh "length ?sel" 1 ?sel "[]" s]
    obtain rs' s1' evs1 where
      q1: "process_files w ?wh (length ?sel) 1 ?sel [] s = (Inr rs', s1')"
      and q2: "st_trace s1' = st_trace s @ evs1" and q3: "filter is_write evs1 = []"
      by blast
    from r1 q1 have "s1' = s1" by simp
    with q2 have q2': "st_trace s1 = st_trace s @ evs1" by simp
    from r1 have r1': "process_directory w ?d ?wh ?mf s = (Inr new, s1)"
      by (simp only: run)
    from r1' r2 r3 q2' q3 show ?thesis by blast
  qed
  then obtain out s1 evs1 where
    p1: "process_directory w ?d ?wh ?mf s = (Inr out, s1)"
    and p2: "list_all (\<lambda>fr. fst fr \<in> set ?sel \<and> truthy (snd fr)) out"
    and p3: "(\<forall>f \<in> set ?sel. \<forall>s0. \<not> succeeded (fst (transcribe_file w f True s0))) \<longrightarrow> out = []"
    and p4: "st_trace s1 = st_trace s @ evs1" and p5: "filter is_write evs1 = []"
    by blast
  let ?wr = "out \<noteq> [] \<and> w_writable w (w_time w)"
  let ?s' = "if ?wr then emit (WriteFile (w_time w) out) s1 else s1"
  let ?evs = "evs1 @ (if ?wr then [WriteFile (w_time w) out] else [])"
  have m: "main w a s = (if out = [] \<or> w_writable w (w_time w) then Inr () else Inl OSError, ?s')"
    using mode p1 by (simp add: main_def)
  have t: "st_trace ?s' = st_trace s @ ?evs"
    using p4 by simp
  have f: "filter is_write ?evs = (if ?wr then [WriteFile (w_time w) out] else [])"
    using p5 by simp
  from p1 p2 p3 m t f show ?thesis
    unfolding batch by blast
qed

theorem batch_all_failed_writes_nothing_witness:
  "\<not> a_list_files batch_args \<and> \<not> a_test batch_args \<and>
   batch_files failing_world ''d'' None = [''d/a.wav'', ''d/b.mp3''] \<and>
   fst (transcribe_file failing_world ''d/a.wav'' True example_state) = Inr None \<and>
   process_directory failing_world ''d'' None None example_state =
     (Inr [], snd (process_directory failing_world ''d'' None None example_state)) \<and>
   fst (main failing_world batch_args example_state) = Inr () \<and>
   filter is_write (st_trace (snd (main failing_world batch_args example_state))) = []"
proof -
  have m1: "\<not> a_list_files batch_args" and m2: "\<not> a_test batch_args"
    by (simp_all add: batch_args_def)
  have b: "batch_files failing_world ''d'' None = [''d/a.wav'', ''d/b.mp3'']"
    by code_simp
  have fails: "fst (transcribe_file failing_world f True s0) = Inr None" for f s0
    by (rule transcribe_file_transcoder_fails [where rc = 1]) (simp_all add: failing_world_def)
  have all: "\<forall>f \<in> set (batch_files failing_world (a_directory batch_args) (a_max_files batch_args)).
      \<forall>s0. \<not> succeeded (fst (transcribe_file failing_world f True s0))"
    by (simp add: fails)
  have tr0: "st_trace example_state = []" by (simp add: example_state_def)
  from batch_all_failed_writes_nothing [OF m1 m2, of failing_world example_state]
  obtain out s1 s' evs where
    p: "process_directory failing_world (a_directory batch_args) (a_webhook batch_args)
          (a_max_files batch_args) example_state = (Inr out, s1)"
    and e: "(\<forall>f \<in> set (batch_files failing_world (a_directory batch_args) (a_max_files batch_args)).
         \<forall>s0. \<not> succeeded (fst (transcribe_file failing_world f True s0))) \<longrightarrow> out = []"
    and m: "main failing_world batch_args example_state =
       (if out = [] \<or> w_writable failing_world (w_time failing_world) then Inr () else Inl OSError, s')"
    and t: "st_trace s' = st_trace example_state @ evs"
    and f: "filter is_write evs =
       (if out \<noteq> [] \<and> w_writable failing_world (w_time failing_world)
        then [WriteFile (w_time failing_world) out] else [])"
    by blast
  from e all have out: "out = []" by blast
  from p out have p': "process_directory failing_world ''d'' None None example_state = (Inr [], s1)"
    by (simp add: batch_args_def)
  from m out have m': "main failing_world batch_args example_state = (Inr (), s')" by simp
  from t f out tr0 have w: "filter is_write (st_trace s') = []" by simp
  from m1 m2 b fails [of "''d/a.wav''" example_state] p' m' w show ?thesis by simp
qed

subsection \<open>C9: a failing webhook changes no result\<close>

text \<open>
  Claim C9. \<open>send_to_webhook\<close> returns a truth value in every case: true exactly when the
  result is a dictionary and the webhook answers 200, false for every other answer and for
  every exception. And whatever the webhook does (\<open>h\<close> is any behaviour), the list
  \<open>process_directory\<close> returns with a webhook endpoint is the list it returns without one:
  no entry is removed when forwarding fails, and nothing is raised.
\<close>

theorem webhook_failure_keeps_results:
  "fst (send_to_webhook w r u s) =
     (\<exists>kvs. r = JObj kvs \<and> w_webhook w u (webhook_payload w kvs) = WStatus 200) \<and>
   (\<exists>results.
      fst (process_directory (w\<lparr>w_webhook := h\<rparr>) directory_path (Some u) max_files s) =
        Inr results \<and>
      fst (process_directory w directory_path None max_files s) = Inr results)"
proof -
  have flag: "fst (send_to_webhook w r u s) =
     (\<exists>kvs. r = JObj kvs \<and> w_webhook w u (webhook_payload w kvs) = WStatus 200)"
    by (cases r) (auto simp: send_to_webhook_def Let_def split: webhook_outcome.splits)
  let ?w = "w\<lparr>w_webhook := h\<rparr>"
  have walk: "w_walk ?w directory_path = w_walk w directory_path" by simp
  obtain uf reps where found: "get_unique_files (w_walk w directory_path) = Inr (uf, reps)"
    using get_unique_files_returns by blast
  let ?sel = "truncate_files max_files uf"
  have "\<exists>results.
      fst (process_directory ?w directory_path (Some u) max_files s) = Inr results \<and>
      fst (process_directory w directory_path None max_files s) = Inr results"
  proof (cases "uf = []")
    case True
    then show ?thesis by (simp add: process_directory_def found)
  next
    case False
    then have a: "process_directory ?w directory_path (Some u) max_files s =
        process_files ?w (Some u) (length ?sel) 1 ?sel [] s"
      and b: "process_directory w directory_path None max_files s =
        process_files w None (length ?sel) 1 ?sel [] s"
      by (simp_all add: process_directory_def found Let_def)
    have eq: "fst (process_files ?w (Some u) (length ?sel) 1 ?sel [] s) =
        fst (process_files w None (length ?sel) 1 ?sel [] s)"
      by (rule process_files_webhook_free) simp
    from process_files_trace [of w None "length ?sel" 1 ?sel "[]" s]
    obtain rs where "fst (process_files w None (length ?sel) 1 ?sel [] s) = Inr rs"
      by force
    with a b eq show ?thesis by simp
  qed
  with flag show ?thesis by blast
qed

subsection \<open>C10: a cap of zero is no cap\<close>

text \<open>
  Claim C10. With \<^verbatim>\<open>max_files=0\<close> the test \<^verbatim>\<open>if max_files:\<close> is false, so
  \<open>process_directory\<close> does what it does without a cap: it returns without raising and
  \<open>transcribe_file\<close> is entered for every unique file of the directory, in order.
\<close>

theorem process_directory_max_files_zero:
  "process_directory w directory_path webhook_endpoint (Some 0) s =
     process_directory w directory_path webhook_endpoint None s \<and>
   (\<exists>unique_files reports results s' evs.
      get_unique_files (w_walk w directory_path) = Inr (unique_files, reports) \<and>
      process_directory w directory_path webhook_endpoint (Some 0) s = (Inr results, s') \<and>
      st_trace s' = st_trace s @ evs \<and>
      attempted evs = unique_files)"
proof -
  obtain u reps where found: "get_unique_files (w_walk w directory_path) = Inr (u, reps)"
    using get_unique_files_returns by blast
  have same: "process_directory w directory_path webhook_endpoint (Some 0) s =
      process_directory w directory_path webhook_endpoint None s"
    by (simp add: process_directory_def found truncate_files_def)
  have "\<exists>results s' evs.
      process_directory w directory_path webhook_endpoint (Some 0) s = (Inr results, s') \<and>
      st_trace s' = st_trace s @ evs \<and> attempted evs = u"
  proof (cases "u = []")
    case True
    then have "process_directory w directory_path webhook_endpoint (Some 0) s = (Inr [], s)"
      by (simp add: process_directory_def found)
    with True show ?thesis by simp
  next
    case False
    then have run: "process_directory w directory_path webhook_endpoint (Some 0) s =
        process_files w webhook_endpoint (length u) 1 u [] s"
      by (simp add: process_directory_def found truncate_files_def)
    from process_files_trace [of w webhook_endpoint "length u" 1 u "[]" s]
    obtain rs s' evs where
      p: "process_files w webhook_endpoint (length u) 1 u [] s = (Inr rs, s')"
      "st_trace s' = st_trace s @ evs"
      and sch: "filter is_schedule evs = plan (length u) 1 u"
      by blast
    have "attempted evs = attempted (filter is_schedule evs)"
      by (simp add: attempted_schedule)
    with sch have "attempted evs = u" by (simp add: attempted_plan)
    with p run show ?thesis by auto
  qed
  with same found show ?thesis by blast
qed

end
